theory Spec2Isabelle
  imports Main "HOL-Library.Word" "HOL-Library.Signed_Division"
begin

section \<open>Data model\<close>

text \<open>
  The storage engine is written in Go. A \<^verbatim>\<open>[]byte\<close> is a list of 8-bit words, a Go
  \<^verbatim>\<open>string\<close> is a \<^typ>\<open>string\<close>, and \<^verbatim>\<open>map[string]T\<close> is a partial function from
  strings. The counter \<^verbatim>\<open>RefCount\<close> has Go type \<^verbatim>\<open>int\<close>, which is a signed 64-bit
  integer on the 64-bit platforms the service is built for: it is a 64-bit word whose
  comparisons with zero are signed and whose additions wrap.

  Every digest in the program is \<^verbatim>\<open>hex.EncodeToString(sha256.Sum256(data))\<close>. SHA-256 and
  the hex encoder belong to the Go standard library, so the digest is a parameter
  \<open>H\<close> of every operation that computes one.
\<close>

type_synonym byte = "8 word"
type_synonym bytes = "byte list"
type_synonym digest = "bytes \<Rightarrow> string"

text \<open>
  Go functions return an \<^verbatim>\<open>error\<close> beside their result. Each place of the source that
  builds an error is a constructor here; \<open>Panic\<close> is a run-time panic (nil dereference,
  slice bounds out of range, integer division by zero).
\<close>

datatype error =
    EmptyFile
  | EmptyData
  | BlockNotFound string
  | RedisUnavailable
  | RedisNil
  | DuplicateKey
  | RecordNotFound
  | Panic

text \<open>\<^verbatim>\<open>model.Block\<close> and \<^verbatim>\<open>model.File\<close> (the time stamps are left out).\<close>

record Block =
  Hash :: string
  Size :: int
  Data :: bytes
  RefCount :: "64 word"

record File =
  FileID :: nat
  UUID :: string
  Name :: string
  FileSize :: int
  FileHash :: string
  BlockIDs :: "string list"
  LibraryID :: nat

text \<open>\<^verbatim>\<open>model.NewBlock\<close>: the reference count of a new block is the zero value.\<close>

definition NewBlock :: "digest \<Rightarrow> bytes \<Rightarrow> Block" where
  "NewBlock H data = \<lparr>Hash = H data, Size = int (length data), Data = data, RefCount = 0\<rparr>"

section \<open>The block store: \<^verbatim>\<open>LocalBlockStore\<close>\<close>

type_synonym LocalBlockStore = "string \<rightharpoonup> bytes"

definition NewLocalBlockStore :: LocalBlockStore where
  "NewLocalBlockStore = Map.empty"

definition LocalBlockStore_Put ::
  "digest \<Rightarrow> LocalBlockStore \<Rightarrow> bytes \<Rightarrow> error + (string \<times> LocalBlockStore)" where
  "LocalBlockStore_Put H s data =
     (if length data = 0 then Inl EmptyData
      else let hashHex = H data in Inr (hashHex, s(hashHex \<mapsto> data)))"

definition LocalBlockStore_Get :: "LocalBlockStore \<Rightarrow> string \<Rightarrow> error + bytes" where
  "LocalBlockStore_Get s hash =
     (case s hash of None \<Rightarrow> Inl (BlockNotFound hash) | Some data \<Rightarrow> Inr data)"

definition LocalBlockStore_Exists :: "LocalBlockStore \<Rightarrow> string \<Rightarrow> error + bool" where
  "LocalBlockStore_Exists s hash =
     (case s hash of None \<Rightarrow> Inr False | Some data \<Rightarrow> Inr True)"

definition LocalBlockStore_Delete :: "LocalBlockStore \<Rightarrow> string \<Rightarrow> error + LocalBlockStore" where
  "LocalBlockStore_Delete s hash =
     (case s hash of None \<Rightarrow> Inl (BlockNotFound hash) | Some data \<Rightarrow> Inr (s(hash := None)))"

section \<open>The cache layer\<close>

text \<open>
  The Redis server is outside the repository. Its state is the key space of cached
  payloads, the hashes that track upload sessions, and whether the server answers at
  all: every command on an unreachable server returns an error. \<^verbatim>\<open>EXISTS key\<close> replies
  with the number of the given keys that exist.
\<close>

record Redis =
  redis_reachable :: bool
  redis_strings :: "string \<rightharpoonup> bytes"
  redis_hashes :: "string \<rightharpoonup> (string \<times> string) list"

definition redis_Exists :: "Redis \<Rightarrow> string \<Rightarrow> error + int" where
  "redis_Exists r key =
     (if \<not> redis_reachable r then Inl RedisUnavailable
      else case redis_strings r key of None \<Rightarrow> Inr 0 | Some v \<Rightarrow> Inr 1)"

text \<open>
  Both cache decorators wrap a \<^verbatim>\<open>BlockStore\<close>; the factory passes them the local store.
  \<^verbatim>\<open>cachedBlockStore\<close> is the one \<^verbatim>\<open>InitializeStorage\<close> builds for the storage type
  \<^verbatim>\<open>local-cached\<close>, \<^verbatim>\<open>RedisBlockCache\<close> the one \<^verbatim>\<open>CreateCachedLocalStack\<close> builds.
  The fields carry the prefixes \<open>cbs_\<close> and \<open>rbc_\<close> because several structs of the
  source share field names.
\<close>

record cachedBlockStore =
  cbs_local :: LocalBlockStore
  cbs_redisClient :: Redis
  cbs_cacheKeyPrefix :: string

record RedisBlockCache =
  rbc_blockStore :: LocalBlockStore
  rbc_client :: Redis
  rbc_cacheKeyPrefix :: string

definition cachedBlockStore_Exists :: "cachedBlockStore \<Rightarrow> string \<Rightarrow> error + bool" where
  "cachedBlockStore_Exists c hash =
     (let cacheKey = cbs_cacheKeyPrefix c @ hash in
      case redis_Exists (cbs_redisClient c) cacheKey of
        Inl err \<Rightarrow> Inl err
      | Inr exists \<Rightarrow>
          if exists > 0 then Inr True
          else LocalBlockStore_Exists (cbs_local c) hash)"

definition getCacheKey :: "RedisBlockCache \<Rightarrow> string \<Rightarrow> string" where
  "getCacheKey c hash = rbc_cacheKeyPrefix c @ hash"

definition RedisBlockCache_Exists :: "RedisBlockCache \<Rightarrow> string \<Rightarrow> error + bool" where
  "RedisBlockCache_Exists c hash =
     (let cacheKey = getCacheKey c hash in
      case redis_Exists (rbc_client c) cacheKey of
        Inr exists \<Rightarrow>
          if exists > 0 then Inr True
          else LocalBlockStore_Exists (rbc_blockStore c) hash
      | Inl err \<Rightarrow> LocalBlockStore_Exists (rbc_blockStore c) hash)"

section \<open>The metadata repositories\<close>

subsection \<open>\<^verbatim>\<open>MockBlockRepository\<close> and \<^verbatim>\<open>MockFileRepository\<close>\<close>

text \<open>
  The in-memory repositories keep a Go map from digest to row. They never return an
  error. A lookup of a missing row returns the pair \<^verbatim>\<open>(nil, nil)\<close>, here \<open>Inr None\<close>.
\<close>

type_synonym MockBlockRepository = "string \<rightharpoonup> Block"

definition NewMockBlockRepository :: MockBlockRepository where
  "NewMockBlockRepository = Map.empty"

definition MockBlockRepository_SaveBlockMetadata ::
  "MockBlockRepository \<Rightarrow> Block \<Rightarrow> error + MockBlockRepository" where
  "MockBlockRepository_SaveBlockMetadata m block = Inr (m(Hash block \<mapsto> block))"

definition MockBlockRepository_GetBlockMetadata ::
  "MockBlockRepository \<Rightarrow> string \<Rightarrow> error + Block option" where
  "MockBlockRepository_GetBlockMetadata m hash = Inr (m hash)"

definition MockBlockRepository_IncrementRefCount ::
  "MockBlockRepository \<Rightarrow> string \<Rightarrow> 64 word \<Rightarrow> error + MockBlockRepository" where
  "MockBlockRepository_IncrementRefCount m hash delta =
     (case m hash of
        Some block \<Rightarrow> Inr (m(hash \<mapsto> block\<lparr>RefCount := RefCount block + delta\<rparr>))
      | None \<Rightarrow> Inr m)"

definition MockBlockRepository_DecrementBlockRefCount ::
  "MockBlockRepository \<Rightarrow> string \<Rightarrow> error + MockBlockRepository" where
  "MockBlockRepository_DecrementBlockRefCount m hash =
     (case m hash of
        Some block \<Rightarrow> Inr (m(hash \<mapsto> block\<lparr>RefCount := RefCount block - 1\<rparr>))
      | None \<Rightarrow> Inr m)"

type_synonym MockFileRepository = "string \<rightharpoonup> File"

definition NewMockFileRepository :: MockFileRepository where
  "NewMockFileRepository = Map.empty"

definition MockFileRepository_CreateFile ::
  "MockFileRepository \<Rightarrow> File \<Rightarrow> error + MockFileRepository" where
  "MockFileRepository_CreateFile m file = Inr (m(FileHash file \<mapsto> file))"

definition MockFileRepository_GetFileByHash ::
  "MockFileRepository \<Rightarrow> string \<Rightarrow> error + File option" where
  "MockFileRepository_GetFileByHash m hash = Inr (m hash)"

text \<open>
  \<^verbatim>\<open>DeleteFile\<close> ranges over the map and deletes the first row it meets whose \<^verbatim>\<open>ID\<close> is
  the given one. Go leaves the iteration order of a map unspecified, so the order in
  which the loop visits the keys is the argument \<open>order\<close>.
\<close>

fun MockFileRepository_DeleteFile_range ::
  "string list \<Rightarrow> MockFileRepository \<Rightarrow> nat \<Rightarrow> MockFileRepository" where
  "MockFileRepository_DeleteFile_range [] m fileID = m"
| "MockFileRepository_DeleteFile_range (hash # rest) m fileID =
     (case m hash of
        Some file \<Rightarrow>
          if FileID file = fileID then m(hash := None)
          else MockFileRepository_DeleteFile_range rest m fileID
      | None \<Rightarrow> MockFileRepository_DeleteFile_range rest m fileID)"

definition MockFileRepository_DeleteFile ::
  "string list \<Rightarrow> MockFileRepository \<Rightarrow> nat \<Rightarrow> error + MockFileRepository" where
  "MockFileRepository_DeleteFile order m fileID =
     Inr (MockFileRepository_DeleteFile_range order m fileID)"

subsection \<open>\<^verbatim>\<open>blockRepository\<close>: the GORM repository\<close>

text \<open>
  \<^verbatim>\<open>blockRepository\<close> (and its copy \<^verbatim>\<open>GormBlockRepository\<close>) runs GORM statements on the
  table of \<^verbatim>\<open>model.Block\<close>. The struct tag \<^verbatim>\<open>gorm:"uniqueIndex"\<close> on \<^verbatim>\<open>Hash\<close> makes the digest a
  unique key of the table, so the table is a partial function from digest to row.
  GORM and the database are outside the repository; the three statements the
  repository uses behave as follows on a reachable database:
  \<^item> \<^verbatim>\<open>Create(block)\<close> is an \<^verbatim>\<open>INSERT\<close>: it fails with a duplicate-key error when a row
    with the same digest exists (the statement carries no \<^verbatim>\<open>ON CONFLICT\<close> clause);
  \<^item> \<^verbatim>\<open>Where("hash = ?", hash).First(&block)\<close> loads the row or fails with
    \<^verbatim>\<open>ErrRecordNotFound\<close>;
  \<^item> \<^verbatim>\<open>Save(&block)\<close> of a row loaded by \<^verbatim>\<open>First\<close> writes all its fields back to that row.
  The primary key, which only the database assigns and reads, is left out of
  \<^typ>\<open>Block\<close>; every row is stored under its own digest. An error wrapped by \<^verbatim>\<open>fmt.Errorf("...: %w", err)\<close> is returned as its cause.
\<close>

type_synonym blockRepository = "string \<rightharpoonup> Block"

definition gorm_Create :: "blockRepository \<Rightarrow> Block \<Rightarrow> error + blockRepository" where
  "gorm_Create db block =
     (case db (Hash block) of
        Some row \<Rightarrow> Inl DuplicateKey
      | None \<Rightarrow> Inr (db(Hash block \<mapsto> block)))"

definition gorm_First :: "blockRepository \<Rightarrow> string \<Rightarrow> error + Block" where
  "gorm_First db hash =
     (case db hash of None \<Rightarrow> Inl RecordNotFound | Some row \<Rightarrow> Inr row)"

definition gorm_Save :: "blockRepository \<Rightarrow> Block \<Rightarrow> error + blockRepository" where
  "gorm_Save db block = Inr (db(Hash block \<mapsto> block))"

definition blockRepository_SaveBlockMetadata ::
  "blockRepository \<Rightarrow> Block \<Rightarrow> error + blockRepository" where
  "blockRepository_SaveBlockMetadata db block =
     (case gorm_Create db block of Inl err \<Rightarrow> Inl err | Inr db' \<Rightarrow> Inr db')"

definition blockRepository_IncrementRefCount ::
  "blockRepository \<Rightarrow> string \<Rightarrow> 64 word \<Rightarrow> error + blockRepository" where
  "blockRepository_IncrementRefCount db hash delta =
     (case gorm_First db hash of
        Inl err \<Rightarrow> Inl err
      | Inr block \<Rightarrow>
          (case gorm_Save db (block\<lparr>RefCount := RefCount block + delta\<rparr>) of
             Inl err \<Rightarrow> Inl err
           | Inr db' \<Rightarrow> Inr db'))"

definition blockRepository_DecrementBlockRefCount ::
  "blockRepository \<Rightarrow> string \<Rightarrow> error + blockRepository" where
  "blockRepository_DecrementBlockRefCount db hash =
     (case gorm_First db hash of
        Inl err \<Rightarrow> Inl err
      | Inr block \<Rightarrow>
          if 0 <s RefCount block then
            (case gorm_Save db (block\<lparr>RefCount := RefCount block - 1\<rparr>) of
               Inl err \<Rightarrow> Inl err
             | Inr db' \<Rightarrow> Inr db')
          else Inr db)"

section \<open>Go integers, slices and formatting\<close>

text \<open>
  Sizes and positions are Go \<^verbatim>\<open>int\<close>s, signed 64-bit integers. They are modelled as
  integers; a sum or difference that can leave the 64-bit range on some input is written
  with \<open>add64\<close> or \<open>sub64\<close>, which wrap, and the other sums stay below twice the length
  of a slice. The slice expression \<^verbatim>\<open>data[lo:hi]\<close> panics unless \<open>0 \<le> lo \<le> hi \<le> len\<close>
  (every slice sliced here has its capacity equal to its length or is cut at a bound
  clamped to the length).
\<close>

definition add64 :: "int \<Rightarrow> int \<Rightarrow> int" where
  "add64 a b = signed_take_bit 63 (a + b)"

definition sub64 :: "int \<Rightarrow> int \<Rightarrow> int" where
  "sub64 a b = signed_take_bit 63 (a - b)"

definition slice :: "'a list \<Rightarrow> int \<Rightarrow> int \<Rightarrow> error + 'a list" where
  "slice xs lo hi =
     (if 0 \<le> lo \<and> lo \<le> hi \<and> hi \<le> int (length xs)
      then Inr (take (nat (hi - lo)) (drop (nat lo) xs))
      else Inl Panic)"

text \<open>\<^verbatim>\<open>fmt.Sprintf("%d", i)\<close>: the decimal digits of \<open>i\<close>, after a minus sign if \<open>i < 0\<close>.\<close>

definition digit_char :: "nat \<Rightarrow> char" where
  "digit_char d = ''0123456789'' ! d"

fun digits :: "nat \<Rightarrow> string" where
  "digits n = (if n < 10 then [digit_char n] else digits (n div 10) @ [digit_char (n mod 10)])"

declare digits.simps [simp del]

definition Sprintf_d :: "int \<Rightarrow> string" where
  "Sprintf_d i = (if i < 0 then CHR ''-'' # digits (nat (- i)) else digits (nat i))"

text \<open>
  \<^verbatim>\<open>fmt.Sscanf(field, "chunk:%d", &totalChunks)\<close> on a field that
  \<^verbatim>\<open>fmt.Sprintf("chunk:%d", i)\<close> wrote: the literal prefix is matched, then an optional
  sign and the leading decimal digits are read. When the input does not match, the
  variable keeps its zero value (the source drops the error of the scan).
\<close>

definition digit_val :: "char \<Rightarrow> nat option" where
  "digit_val ch = (if ch \<in> set ''0123456789'' then Some (of_char ch - 48) else None)"

fun scan_digits :: "string \<Rightarrow> nat \<Rightarrow> nat" where
  "scan_digits [] acc = acc"
| "scan_digits (ch # rest) acc =
     (case digit_val ch of None \<Rightarrow> acc | Some d \<Rightarrow> scan_digits rest (10 * acc + d))"

definition scan_d :: "string \<Rightarrow> int" where
  "scan_d str =
     (case str of
        [] \<Rightarrow> 0
      | ch # rest \<Rightarrow>
          if ch = CHR ''-'' then
            (case rest of [] \<Rightarrow> 0
             | r # rs \<Rightarrow> if digit_val r = None then 0 else - int (scan_digits rest 0))
          else if ch = CHR ''+'' then
            (case rest of [] \<Rightarrow> 0
             | r # rs \<Rightarrow> if digit_val r = None then 0 else int (scan_digits rest 0))
          else if digit_val ch = None then 0
          else int (scan_digits str 0))"

definition Sscanf_chunk :: "string \<Rightarrow> int" where
  "Sscanf_chunk field =
     (if take 6 field = ''chunk:'' then scan_d (drop 6 field) else 0)"

section \<open>The chunkers\<close>

record FixedSizeChunker =
  blockSize :: int

definition NewFixedSizeChunker :: "int \<Rightarrow> FixedSizeChunker" where
  "NewFixedSizeChunker blockSize0 =
     \<lparr>blockSize = (if blockSize0 \<le> 0 then 8192 else blockSize0)\<rparr>"

text \<open>
  The loop of \<^verbatim>\<open>FixedSizeChunker.Chunk\<close>. With a block size of zero (the zero value of
  the struct) it never ends, so it is a partial function: \<open>None\<close> is a run that does
  not return. Here \<open>i\<close> is a multiple of the block size below the length of the data, and
  a byte slice has far fewer than \<open>2 ^ 62\<close> elements: \<open>i + blockSize\<close> does not wrap.
\<close>

partial_function (option) FixedSizeChunker_loop ::
  "digest \<Rightarrow> FixedSizeChunker \<Rightarrow> bytes \<Rightarrow> int \<Rightarrow> string list \<Rightarrow> (error + string list) option" where
  "FixedSizeChunker_loop H c data i hashes =
     (if i < int (length data) then
        (let endp = i + blockSize c;
             endp = (if endp > int (length data) then int (length data) else endp)
         in case slice data i endp of
              Inl err \<Rightarrow> Some (Inl err)
            | Inr chunk \<Rightarrow> FixedSizeChunker_loop H c data (i + blockSize c) (hashes @ [H chunk]))
      else Some (Inr hashes))"

definition FixedSizeChunker_Chunk ::
  "digest \<Rightarrow> FixedSizeChunker \<Rightarrow> bytes \<Rightarrow> (error + string list) option" where
  "FixedSizeChunker_Chunk H c data =
     (if length data = 0 then Some (Inr [])
      else FixedSizeChunker_loop H c data 0 [])"

definition FixedSizeChunker_ChunkSize :: "FixedSizeChunker \<Rightarrow> int" where
  "FixedSizeChunker_ChunkSize c = blockSize c"

record CDCChunker =
  minSize :: int
  maxSize :: int
  avgSize :: int
  windowSize :: int

definition NewCDCChunker :: "int \<Rightarrow> int \<Rightarrow> int \<Rightarrow> CDCChunker" where
  "NewCDCChunker minSize0 avgSize0 maxSize0 =
     (let minSize1 = (if minSize0 \<le> 0 then 2048 else minSize0);
          avgSize1 = (if avgSize0 \<le> 0 then 8192 else avgSize0);
          maxSize1 = (if maxSize0 \<le> 0 then 65536 else maxSize0)
      in if minSize1 \<ge> avgSize1 \<or> avgSize1 \<ge> maxSize1
         then \<lparr>minSize = 2048, maxSize = 65536, avgSize = 8192, windowSize = 64\<rparr>
         else \<lparr>minSize = minSize1, maxSize = maxSize1, avgSize = avgSize1, windowSize = 64\<rparr>)"

text \<open>
  Go's \<^verbatim>\<open>%\<close> truncates towards zero (\<open>smod\<close>) and panics on a zero divisor.
\<close>

definition isChunkBoundary :: "CDCChunker \<Rightarrow> bytes \<Rightarrow> int \<Rightarrow> error + bool" where
  "isChunkBoundary c data pos =
     (if pos < minSize c \<or> pos > int (length data) then Inr False
      else if avgSize c = 0 then Inl Panic
      else Inr (sub64 pos (minSize c) smod avgSize c = 0))"

text \<open>
  One round of the outer loop of \<^verbatim>\<open>CDCChunker.Chunk\<close> starts \<^verbatim>\<open>chunkEnd\<close> at
  \<^verbatim>\<open>pos + minSize\<close>, moves it forward to the next boundary in the inner loop
  (\<open>CDCChunker_scan\<close>), clamps it to \<^verbatim>\<open>pos + maxSize\<close> and to the length of the data
  (\<open>CDCChunker_chunkEnd\<close>), and cuts the block \<^verbatim>\<open>data[pos:chunkEnd]\<close>. Both loops are partial
  functions: with sizes that did not come from \<^verbatim>\<open>NewCDCChunker\<close> the outer loop can stay at
  the same position forever. The two sums with \<^verbatim>\<open>pos\<close> and \<^verbatim>\<open>chunkEnd++\<close> are 64-bit
  additions. The outer loop collects the blocks it cuts, and \<open>CDCChunker_Chunk\<close> returns
  their digests in the same order, as the source appends one digest per block.
\<close>

partial_function (option) CDCChunker_scan ::
  "CDCChunker \<Rightarrow> bytes \<Rightarrow> int \<Rightarrow> int \<Rightarrow> (error + int) option" where
  "CDCChunker_scan c data pos chunkEnd =
     (if chunkEnd < add64 pos (maxSize c) \<and> chunkEnd < int (length data) then
        (case isChunkBoundary c data chunkEnd of
           Inl err \<Rightarrow> Some (Inl err)
         | Inr boundary \<Rightarrow>
             if boundary then Some (Inr chunkEnd)
             else CDCChunker_scan c data pos (add64 chunkEnd 1))
      else Some (Inr chunkEnd))"

definition CDCChunker_chunkEnd :: "CDCChunker \<Rightarrow> bytes \<Rightarrow> int \<Rightarrow> (error + int) option" where
  "CDCChunker_chunkEnd c data pos =
     Option.bind (CDCChunker_scan c data pos (add64 pos (minSize c)))
       (\<lambda>scanned. case scanned of
          Inl err \<Rightarrow> Some (Inl err)
        | Inr chunkEnd0 \<Rightarrow>
            (let chunkEnd1 = (if chunkEnd0 > add64 pos (maxSize c)
                              then add64 pos (maxSize c) else chunkEnd0);
                 chunkEnd = (if chunkEnd1 > int (length data)
                             then int (length data) else chunkEnd1)
             in Some (Inr chunkEnd)))"

partial_function (option) CDCChunker_loop ::
  "CDCChunker \<Rightarrow> bytes \<Rightarrow> int \<Rightarrow> bytes list \<Rightarrow> (error + bytes list) option" where
  "CDCChunker_loop c data pos chunks =
     (if pos < int (length data) then
        Option.bind (CDCChunker_chunkEnd c data pos)
          (\<lambda>cut. case cut of
             Inl err \<Rightarrow> Some (Inl err)
           | Inr chunkEnd \<Rightarrow>
               (case slice data pos chunkEnd of
                  Inl err \<Rightarrow> Some (Inl err)
                | Inr chunk \<Rightarrow> CDCChunker_loop c data chunkEnd (chunks @ [chunk])))
      else Some (Inr chunks))"

definition CDCChunker_blocks :: "CDCChunker \<Rightarrow> bytes \<Rightarrow> (error + bytes list) option" where
  "CDCChunker_blocks c data =
     (if length data = 0 then Some (Inr [])
      else CDCChunker_loop c data 0 [])"

definition CDCChunker_Chunk ::
  "digest \<Rightarrow> CDCChunker \<Rightarrow> bytes \<Rightarrow> (error + string list) option" where
  "CDCChunker_Chunk H c data = map_option (map_sum id (map H)) (CDCChunker_blocks c data)"

datatype Chunker = FixedSize FixedSizeChunker | CDC CDCChunker

section \<open>The file service\<close>

text \<open>
  \<^verbatim>\<open>FileService\<close> holds its collaborators behind interfaces. The state modelled here is
  the in-memory stack that \<^verbatim>\<open>test/main_test.go\<close> wires: a \<^verbatim>\<open>LocalBlockStore\<close>, a
  \<^verbatim>\<open>MockFileRepository\<close>, a \<^verbatim>\<open>MockBlockRepository\<close> and a chunker; \<^verbatim>\<open>redisClient\<close> may be
  \<^verbatim>\<open>nil\<close> (\<open>None\<close>). The goroutine that \<^verbatim>\<open>UploadFile\<close> and \<^verbatim>\<open>DeleteFile\<close> start before they
  return (\<^verbatim>\<open>SnapshotService.CreateCommit\<close>) reads the file rows and writes to the snapshot
  repository only, which is not part of this state.
\<close>

record FileService =
  blockStore :: LocalBlockStore
  fileRepo :: MockFileRepository
  blockRepo :: MockBlockRepository
  chunker :: Chunker
  redisClient :: "Redis option"

definition calculateFileHash :: "bytes \<Rightarrow> string" where
  "calculateFileHash data = ''hash_'' @ Sprintf_d (int (length data))"

text \<open>
  The loop of \<^verbatim>\<open>UploadFile\<close> runs once per element of \<^verbatim>\<open>chunks\<close> and reads nothing else
  of it. It returns the state it reached also when it stops with an error.
\<close>

fun UploadFile_loop ::
  "digest \<Rightarrow> int \<Rightarrow> bytes \<Rightarrow> string list \<Rightarrow> int \<Rightarrow> string list \<Rightarrow> FileService
     \<Rightarrow> (error + string list) \<times> FileService" where
  "UploadFile_loop H blockSize0 data [] currentPos blockHashes s = (Inr blockHashes, s)"
| "UploadFile_loop H blockSize0 data (chunk # chunks) currentPos blockHashes s =
     (let endPos = currentPos + blockSize0;
          endPos = (if endPos > int (length data) then int (length data) else endPos)
      in case slice data currentPos endPos of
           Inl err \<Rightarrow> (Inl err, s)
         | Inr currentChunkData \<Rightarrow>
             (case LocalBlockStore_Put H (blockStore s) currentChunkData of
                Inl err \<Rightarrow> (Inl err, s)
              | Inr (hash, store) \<Rightarrow>
                  (case MockBlockRepository_IncrementRefCount (blockRepo s) hash 1 of
                     Inl err \<Rightarrow> (Inl err, s\<lparr>blockStore := store\<rparr>)
                   | Inr repo \<Rightarrow>
                       UploadFile_loop H blockSize0 data chunks endPos (blockHashes @ [hash])
                         (s\<lparr>blockStore := store, blockRepo := repo\<rparr>))))"

text \<open>
  \<^verbatim>\<open>UploadFile\<close> asserts that the chunker is a \<^verbatim>\<open>*FixedSizeChunker\<close>; the assertion panics
  on any other chunker. \<^verbatim>\<open>json.Marshal\<close> of the digest list and \<^verbatim>\<open>json.Unmarshal\<close> of
  the result give the list back, so \<^verbatim>\<open>BlockIDs\<close> is the list itself.
\<close>

definition UploadFile ::
  "digest \<Rightarrow> FileService \<Rightarrow> string \<Rightarrow> bytes \<Rightarrow> ((error + File) \<times> FileService) option" where
  "UploadFile H s fileName data =
     (if length data = 0 then Some (Inl EmptyFile, s)
      else case chunker s of
        CDC c \<Rightarrow> Some (Inl Panic, s)
      | FixedSize c \<Rightarrow>
          Option.bind (FixedSizeChunker_Chunk H c data)
            (\<lambda>chunked. case chunked of
               Inl err \<Rightarrow> Some (Inl err, s)
             | Inr chunks \<Rightarrow>
                 (case UploadFile_loop H (FixedSizeChunker_ChunkSize c) data chunks 0 [] s of
                    (Inl err, s') \<Rightarrow> Some (Inl err, s')
                  | (Inr blockHashes, s') \<Rightarrow>
                      (let file = \<lparr>FileID = 0, UUID = [], Name = fileName,
                                   FileSize = int (length data),
                                   FileHash = calculateFileHash data,
                                   BlockIDs = blockHashes, LibraryID = 0\<rparr>
                       in case MockFileRepository_CreateFile (fileRepo s') file of
                            Inl err \<Rightarrow> Some (Inl err, s')
                          | Inr repo \<Rightarrow> Some (Inr file, s'\<lparr>fileRepo := repo\<rparr>)))))"

fun DownloadFile_loop :: "FileService \<Rightarrow> string list \<Rightarrow> bytes \<Rightarrow> error + bytes" where
  "DownloadFile_loop s [] fileData = Inr fileData"
| "DownloadFile_loop s (blockHash # blockHashes) fileData =
     (case LocalBlockStore_Get (blockStore s) blockHash of
        Inl err \<Rightarrow> Inl err
      | Inr blockData \<Rightarrow> DownloadFile_loop s blockHashes (fileData @ blockData))"

text \<open>
  The in-memory repository answers \<^verbatim>\<open>(nil, nil)\<close> for an unknown digest, and the service
  then dereferences the nil row: a panic.
\<close>

definition DownloadFile :: "FileService \<Rightarrow> string \<Rightarrow> error + bytes" where
  "DownloadFile s fileHash =
     (case MockFileRepository_GetFileByHash (fileRepo s) fileHash of
        Inl err \<Rightarrow> Inl err
      | Inr None \<Rightarrow> Inl Panic
      | Inr (Some file) \<Rightarrow> DownloadFile_loop s (BlockIDs file) [])"

text \<open>The loop of \<^verbatim>\<open>DeleteFile\<close> logs a failed decrement and goes on.\<close>

fun DeleteFile_loop :: "MockBlockRepository \<Rightarrow> string list \<Rightarrow> MockBlockRepository" where
  "DeleteFile_loop repo [] = repo"
| "DeleteFile_loop repo (blockHash # blockHashes) =
     (case MockBlockRepository_DecrementBlockRefCount repo blockHash of
        Inl err \<Rightarrow> DeleteFile_loop repo blockHashes
      | Inr repo' \<Rightarrow> DeleteFile_loop repo' blockHashes)"

definition DeleteFile ::
  "string list \<Rightarrow> FileService \<Rightarrow> string \<Rightarrow> (error + unit) \<times> FileService" where
  "DeleteFile order s fileHash =
     (case MockFileRepository_GetFileByHash (fileRepo s) fileHash of
        Inl err \<Rightarrow> (Inl err, s)
      | Inr None \<Rightarrow> (Inl Panic, s)
      | Inr (Some file) \<Rightarrow>
          (let s' = s\<lparr>blockRepo := DeleteFile_loop (blockRepo s) (BlockIDs file)\<rparr>
           in case MockFileRepository_DeleteFile order (fileRepo s') (FileID file) of
                Inl err \<Rightarrow> (Inl err, s')
              | Inr repo \<Rightarrow> (Inr (), s'\<lparr>fileRepo := repo\<rparr>)))"

section \<open>The upload sessions\<close>

text \<open>
  The session of an upload is the Redis hash \<^verbatim>\<open>upload:<id>:chunks\<close>, with one field
  \<^verbatim>\<open>chunk:<index>\<close> per chunk received. Time is not modelled: \<^verbatim>\<open>EXPIRE\<close> leaves the state
  as it is.
\<close>

definition redis_HSet :: "Redis \<Rightarrow> string \<Rightarrow> string \<Rightarrow> string \<Rightarrow> error + Redis" where
  "redis_HSet r key field v =
     (if \<not> redis_reachable r then Inl RedisUnavailable
      else let old = (case redis_hashes r key of None \<Rightarrow> [] | Some fs \<Rightarrow> fs)
           in Inr (r\<lparr>redis_hashes :=
                    (redis_hashes r)(key \<mapsto> (field, v) # filter (\<lambda>p. fst p \<noteq> field) old)\<rparr>))"

definition redis_Expire :: "Redis \<Rightarrow> string \<Rightarrow> error + Redis" where
  "redis_Expire r key = (if \<not> redis_reachable r then Inl RedisUnavailable else Inr r)"

definition redis_HGetAll :: "Redis \<Rightarrow> string \<Rightarrow> error + (string \<times> string) list" where
  "redis_HGetAll r key =
     (if \<not> redis_reachable r then Inl RedisUnavailable
      else Inr (case redis_hashes r key of None \<Rightarrow> [] | Some fs \<Rightarrow> fs))"

definition RecordChunkReceived ::
  "FileService \<Rightarrow> string \<Rightarrow> int \<Rightarrow> int \<Rightarrow> error + FileService" where
  "RecordChunkReceived s uploadID chunkIndex totalChunks =
     (case redisClient s of
        None \<Rightarrow> Inl Panic
      | Some r \<Rightarrow>
          (let key = ''upload:'' @ uploadID @ '':chunks'';
               field = ''chunk:'' @ Sprintf_d chunkIndex
           in case redis_HSet r key field ''received'' of
                Inl err \<Rightarrow> Inl err
              | Inr r' \<Rightarrow>
                  (case redis_Expire r' key of
                     Inl err \<Rightarrow> Inl err
                   | Inr r'' \<Rightarrow> Inr (s\<lparr>redisClient := Some r''\<rparr>))))"

text \<open>
  \<^verbatim>\<open>GetMissingChunks\<close> reads the total number of chunks from the first field that the
  \<^verbatim>\<open>range\<close> over the reply of \<^verbatim>\<open>HGETALL\<close> visits. The reply is a Go map, whose iteration
  order is unspecified: the field visited first is the argument \<open>first\<close>, one of the
  fields of the hash.
\<close>

definition GetMissingChunks :: "FileService \<Rightarrow> string \<Rightarrow> string \<Rightarrow> error + int list" where
  "GetMissingChunks s first uploadID =
     (case redisClient s of
        None \<Rightarrow> Inl Panic
      | Some r \<Rightarrow>
          (let key = ''upload:'' @ uploadID @ '':chunks''
           in case redis_HGetAll r key of
                Inl err \<Rightarrow> if err = RedisNil then Inr [] else Inl err
              | Inr receivedChunks \<Rightarrow>
                  if length receivedChunks = 0 then Inr []
                  else (let totalChunks = Sscanf_chunk first
                        in Inr (filter
                                 (\<lambda>i. map_of receivedChunks (''chunk:'' @ Sprintf_d i) = None)
                                 [0..totalChunks - 1]))))"

subsection \<open>The check for an instant upload\<close>

record Node =
  NodeID :: nat
  NodeName :: string
  NodeSize :: int
  ContentHash :: "string option"

definition GetFileNodeByContentHash :: "FileService \<Rightarrow> string \<Rightarrow> error + Node option" where
  "GetFileNodeByContentHash s hash = Inr None"

text \<open>
  The answers of \<^verbatim>\<open>CheckFileHandler\<close>: status 400, status 500, status 200 with
  \<^verbatim>\<open>exists: true\<close> and the file, status 200 with \<^verbatim>\<open>exists: false\<close> and a new upload id.
  The id comes from \<^verbatim>\<open>uuid.New()\<close>, a random value: it is the argument \<open>newUUID\<close>.
\<close>

datatype CheckResponse =
    BadRequest
  | InternalServerError
  | Exists Node
  | NotExists string

definition CheckFileHandler :: "FileService \<Rightarrow> string \<Rightarrow> string \<Rightarrow> CheckResponse" where
  "CheckFileHandler s newUUID fileHash =
     (if fileHash = [] then BadRequest
      else case GetFileNodeByContentHash s fileHash of
             Inl err \<Rightarrow> InternalServerError
           | Inr (Some fileNode) \<Rightarrow> Exists fileNode
           | Inr None \<Rightarrow> NotExists newUUID)"

section \<open>A digest for closed examples\<close>

text \<open>
  The closed examples below need a concrete digest. \<open>hex_encode\<close> is the hex encoding
  of the payload itself (\<^verbatim>\<open>hex.EncodeToString\<close> without the SHA-256 step), which gives
  different payloads different digests.
\<close>

definition hex_char :: "nat \<Rightarrow> char" where
  "hex_char d = ''0123456789abcdef'' ! d"

definition hex_encode :: "bytes \<Rightarrow> string" where
  "hex_encode data = concat (map (\<lambda>b. [hex_char (unat b div 16), hex_char (unat b mod 16)]) data)"

section \<open>Notions used by the properties\<close>

text \<open>
  \<open>blocks_of n xs\<close> cuts \<open>xs\<close> into consecutive pieces of \<open>n\<close> elements, the last one
  possibly shorter. It is the list of payloads that the loops of
  \<^verbatim>\<open>FixedSizeChunker.Chunk\<close> and \<^verbatim>\<open>UploadFile\<close> slice out of the data (lemmas
  \<open>FixedSizeChunker_loop_blocks\<close> and \<open>UploadFile_loop_blocks\<close>).
\<close>

function blocks_of :: "nat \<Rightarrow> 'a list \<Rightarrow> 'a list list" where
  "blocks_of n xs = (if n = 0 \<or> xs = [] then [] else take n xs # blocks_of n (drop n xs))"
  by pat_completeness auto
termination
  by (relation "measure (\<lambda>(n, xs). length xs)") auto

declare blocks_of.simps [simp del]

text \<open>
  What one round of the loop of \<^verbatim>\<open>UploadFile\<close> does to the block store (\<^verbatim>\<open>Put\<close> of a
  non-empty block) and to the in-memory block repository (\<^verbatim>\<open>IncrementRefCount\<close> by 1).
\<close>

definition put_block :: "digest \<Rightarrow> bytes \<Rightarrow> LocalBlockStore \<Rightarrow> LocalBlockStore" where
  "put_block H b st = st(H b \<mapsto> b)"

definition incr_row :: "string \<Rightarrow> MockBlockRepository \<Rightarrow> MockBlockRepository" where
  "incr_row h m =
     (case m h of Some row \<Rightarrow> m(h \<mapsto> row\<lparr>RefCount := RefCount row + 1\<rparr>) | None \<Rightarrow> m)"

text \<open>
  \<open>UploadFile_each\<close> uploads the same bytes once under each of the given names, each
  upload on the state the one before left; the result is \<open>None\<close> when one of the uploads
  does not return a file.
\<close>

fun UploadFile_each :: "digest \<Rightarrow> FileService \<Rightarrow> string list \<Rightarrow> bytes \<Rightarrow> FileService option" where
  "UploadFile_each H s [] data = Some s"
| "UploadFile_each H s (fileName # fileNames) data =
     (case UploadFile H s fileName data of
        Some (Inr file, s') \<Rightarrow> UploadFile_each H s' fileNames data
      | _ \<Rightarrow> None)"

text \<open>What one round of the loop of \<^verbatim>\<open>DeleteFile\<close> does to the in-memory block repository.\<close>

definition decr_row :: "string \<Rightarrow> MockBlockRepository \<Rightarrow> MockBlockRepository" where
  "decr_row h m =
     (case m h of Some row \<Rightarrow> m(h \<mapsto> row\<lparr>RefCount := RefCount row - 1\<rparr>) | None \<Rightarrow> m)"

section \<open>States of the closed examples\<close>

text \<open>
  \<open>memory_stack\<close> is the stack of \<^verbatim>\<open>test/main_test.go\<close> before any call, with blocks of two
  bytes. \<open>stack_abc\<close> is this stack after the upload of the three bytes \<open>0x41 0x42 0x43\<close>
  as \<open>a.txt\<close>, and \<open>file_abc\<close> is the file record that the upload returns (lemma
  \<open>UploadFile_abc\<close>).
\<close>

definition memory_stack :: FileService where
  "memory_stack =
     \<lparr>blockStore = NewLocalBlockStore, fileRepo = NewMockFileRepository,
      blockRepo = NewMockBlockRepository, chunker = FixedSize (NewFixedSizeChunker 2),
      redisClient = None\<rparr>"

definition file_abc :: File where
  "file_abc =
     \<lparr>FileID = 0, UUID = [], Name = ''a.txt'', FileSize = 3, FileHash = ''hash_3'',
      BlockIDs = [''4142'', ''43''], LibraryID = 0\<rparr>"

definition stack_abc :: FileService where
  "stack_abc =
     memory_stack
       \<lparr>blockStore := [''4142'' \<mapsto> [0x41, 0x42], ''43'' \<mapsto> [0x43]],
        fileRepo := [''hash_3'' \<mapsto> file_abc]\<rparr>"

text \<open>
  \<open>down_redis\<close> is a Redis server that does not answer. \<open>store_A\<close> is the local block
  store after \<^verbatim>\<open>Put\<close> of the byte \<open>0x41\<close> (lemma \<open>store_A_Put\<close>), \<open>rows_A\<close> a block
  table after \<^verbatim>\<open>SaveBlockMetadata\<close> of the new block of this byte (lemma \<open>rows_A_Save\<close>),
  and \<open>counted_A\<close> the metadata of this block with reference count 1.
\<close>

definition down_redis :: Redis where
  "down_redis = \<lparr>redis_reachable = False, redis_strings = Map.empty, redis_hashes = Map.empty\<rparr>"

definition store_A :: LocalBlockStore where
  "store_A = [''41'' \<mapsto> [0x41]]"

definition rows_A :: "string \<rightharpoonup> Block" where
  "rows_A = [''41'' \<mapsto> NewBlock hex_encode [0x41]]"

definition counted_A :: Block where
  "counted_A = (NewBlock hex_encode [0x41])\<lparr>RefCount := 1\<rparr>"

text \<open>
  \<open>session_stack\<close> is the stack with a reachable Redis server and no session. In
  \<open>session_01\<close> the chunks 0 and 1 of the three chunks of the upload \<open>U\<close> are recorded as
  received, in \<open>session_02\<close> the chunks 0 and 2 (lemmas \<open>RecordChunkReceived_01\<close> and
  \<open>RecordChunkReceived_02\<close>).
\<close>

definition up_redis :: Redis where
  "up_redis = \<lparr>redis_reachable = True, redis_strings = Map.empty, redis_hashes = Map.empty\<rparr>"

definition session_stack :: FileService where
  "session_stack = memory_stack\<lparr>redisClient := Some up_redis\<rparr>"

definition session_01 :: FileService where
  "session_01 =
     memory_stack\<lparr>redisClient := Some (up_redis\<lparr>redis_hashes :=
       [''upload:U:chunks'' \<mapsto> [(''chunk:1'', ''received''), (''chunk:0'', ''received'')]]\<rparr>)\<rparr>"

definition session_02 :: FileService where
  "session_02 =
     memory_stack\<lparr>redisClient := Some (up_redis\<lparr>redis_hashes :=
       [''upload:U:chunks'' \<mapsto> [(''chunk:2'', ''received''), (''chunk:0'', ''received'')]]\<rparr>)\<rparr>"

text \<open>
  \<open>zeros_stack\<close> cuts blocks of one byte, and its block repository holds the row of the
  new block \<open>[0x00]\<close>, with reference count 0. \<open>file_d\<close> and \<open>stack_two\<close> are the file
  record and the state after the upload of the byte \<open>0x44\<close> as \<open>d.txt\<close> on \<open>stack_abc\<close>
  (lemma \<open>UploadFile_d\<close>): \<open>stack_two\<close> stores two files.
\<close>

definition zeros_stack :: FileService where
  "zeros_stack =
     memory_stack
       \<lparr>blockRepo := [''00'' \<mapsto> NewBlock hex_encode [0x00]],
        chunker := FixedSize (NewFixedSizeChunker 1)\<rparr>"

definition file_d :: File where
  "file_d =
     \<lparr>FileID = 0, UUID = [], Name = ''d.txt'', FileSize = 1, FileHash = ''hash_1'',
      BlockIDs = [''44''], LibraryID = 0\<rparr>"

definition stack_two :: FileService where
  "stack_two =
     memory_stack
       \<lparr>blockStore := [''4142'' \<mapsto> [0x41, 0x42], ''43'' \<mapsto> [0x43], ''44'' \<mapsto> [0x44]],
        fileRepo := [''hash_3'' \<mapsto> file_abc, ''hash_1'' \<mapsto> file_d]\<rparr>"

text \<open>
  \<open>cdc_248\<close> is the content-defined chunker with the sizes 2, 4 and 8; the maximal size
  of \<open>cdc_huge\<close> is the greatest 64-bit integer.
\<close>

definition cdc_248 :: CDCChunker where
  "cdc_248 = NewCDCChunker 2 4 8"

definition cdc_huge :: CDCChunker where
  "cdc_huge = NewCDCChunker 1 2 9223372036854775807"

section \<open>Properties of the storage layer\<close>

lemma store_A_Put:
  "LocalBlockStore_Put hex_encode NewLocalBlockStore [0x41] = Inr (''41'', store_A)"
  by (simp add: LocalBlockStore_Put_def NewLocalBlockStore_def store_A_def hex_encode_def
      hex_char_def Let_def)

lemma NewBlock_A:
  "NewBlock hex_encode [0x41] = \<lparr>Hash = ''41'', Size = 1, Data = [0x41], RefCount = 0\<rparr>"
  by (simp add: NewBlock_def hex_encode_def hex_char_def)

lemma rows_A_Save:
  "MockBlockRepository_SaveBlockMetadata NewMockBlockRepository (NewBlock hex_encode [0x41])
     = Inr rows_A"
  by (simp add: MockBlockRepository_SaveBlockMetadata_def NewMockBlockRepository_def rows_A_def
      NewBlock_A)

subsection \<open>Block metadata written twice\<close>

text \<open>
  Claim C5: writing block metadata for a digest that already has a row succeeds and adds
  the new reference count to the count of the row. The code does not do this. In the
  table \<open>[''41'' \<mapsto> counted_A]\<close> the digest \<open>''41''\<close> has a row with reference count 1.
  Saving the metadata \<open>counted_A\<close> for this digest again makes the GORM repository return
  the duplicate-key error of its \<^verbatim>\<open>INSERT\<close>, and makes the in-memory repository replace
  the row, whose count stays 1 where the claim wants 2.
\<close>

theorem SaveBlockMetadata_existing_digest:
  "blockRepository_SaveBlockMetadata [''41'' \<mapsto> counted_A] counted_A = Inl DuplicateKey
   \<and> map_sum id (\<lambda>m. map_option RefCount (m ''41''))
        (MockBlockRepository_SaveBlockMetadata [''41'' \<mapsto> counted_A] counted_A)
      = Inr (Some 1)"
  by (simp add: blockRepository_SaveBlockMetadata_def gorm_Create_def counted_A_def NewBlock_A
      MockBlockRepository_SaveBlockMetadata_def)

lemma blockRepository_SaveBlockMetadata_duplicate:
  "db (Hash block) = Some row \<Longrightarrow> blockRepository_SaveBlockMetadata db block = Inl DuplicateKey"
  by (simp add: blockRepository_SaveBlockMetadata_def gorm_Create_def)

subsection \<open>The cache layer and \<^verbatim>\<open>Exists\<close>\<close>

lemma RedisBlockCache_Exists_fall_through:
  "redis_Exists (rbc_client c) (getCacheKey c hash) = Inl err
     \<or> redis_Exists (rbc_client c) (getCacheKey c hash) = Inr 0
   \<Longrightarrow> RedisBlockCache_Exists c hash = LocalBlockStore_Exists (rbc_blockStore c) hash"
  by (auto simp: RedisBlockCache_Exists_def)

lemma cachedBlockStore_Exists_unreachable:
  "\<not> redis_reachable (cbs_redisClient c) \<Longrightarrow> cachedBlockStore_Exists c hash = Inl RedisUnavailable"
  by (simp add: cachedBlockStore_Exists_def redis_Exists_def)

text \<open>
  Claim C6: when the probe of the cache gives no positive hit, because the entry is
  absent or the cache fails, \<^verbatim>\<open>Exists\<close> of the cached store returns the answer of the
  inner store. \<^verbatim>\<open>RedisBlockCache.Exists\<close> does so (lemma
  \<open>RedisBlockCache_Exists_fall_through\<close>), \<^verbatim>\<open>cachedBlockStore.Exists\<close> does not: with the
  block \<open>''41''\<close> in the inner store and the Redis server unreachable, the inner store
  and \<^verbatim>\<open>RedisBlockCache\<close> answer \<open>True\<close>, and \<^verbatim>\<open>cachedBlockStore\<close> returns the error of
  the cache.
\<close>

theorem cachedBlockStore_Exists_cache_failure:
  "LocalBlockStore_Exists store_A ''41'' = Inr True
   \<and> cachedBlockStore_Exists
        \<lparr>cbs_local = store_A, cbs_redisClient = down_redis, cbs_cacheKeyPrefix = ''block:''\<rparr>
        ''41'' = Inl RedisUnavailable
   \<and> RedisBlockCache_Exists
        \<lparr>rbc_blockStore = store_A, rbc_client = down_redis, rbc_cacheKeyPrefix = ''block:''\<rparr>
        ''41'' = Inr True"
  by (simp add: LocalBlockStore_Exists_def cachedBlockStore_Exists_def RedisBlockCache_Exists_def
      redis_Exists_def down_redis_def store_A_def getCacheKey_def)

subsection \<open>The sign of the reference count\<close>

lemma sint_decrement:
  assumes "0 <s (x :: 64 word)"
  shows "sint (x - 1) = sint x - 1"
proof -
  have pos: "0 < sint x"
    using assms by (simp add: word_sless_alt)
  have upper: "sint x < 2 ^ 63"
    using sint_lt [of x] by simp
  have "sint (x - 1) = signed_take_bit 63 (sint x - 1)"
    by (simp add: sint_word_ariths)
  also have "\<dots> = sint x - 1"
    using pos upper by (intro signed_take_bit_int_eq_self) auto
  finally show ?thesis .
qed

lemma blockRepository_Decrement_nonneg:
  assumes "db hash = Some b" and "Hash b = hash" and "0 \<le>s RefCount b"
    and "blockRepository_DecrementBlockRefCount db hash = Inr db'"
    and "db' hash = Some b'"
  shows "0 \<le>s RefCount b'"
proof (cases "0 <s RefCount b")
  case True
  then have "b' = b\<lparr>RefCount := RefCount b - 1\<rparr>"
    using assms
    by (auto simp: blockRepository_DecrementBlockRefCount_def gorm_First_def gorm_Save_def
        split: if_splits)
  then show ?thesis
    using sint_decrement [OF True] True by (simp add: word_sle_eq word_sless_alt)
next
  case False
  then have "b' = b"
    using assms
    by (auto simp: blockRepository_DecrementBlockRefCount_def gorm_First_def gorm_Save_def)
  then show ?thesis using assms(3) by simp
qed

text \<open>
  Claim C7: the reference count of a block is never negative, and a decrement at 0
  leaves it at 0. The GORM repository clamps the decrement (lemma
  \<open>blockRepository_Decrement_nonneg\<close>); the in-memory repository decrements without a
  test. On the row of a new block, whose count is 0, \<^verbatim>\<open>DecrementBlockRefCount\<close> of the
  in-memory repository leaves the count \<open>- 1\<close>, and the one of the GORM repository
  leaves 0.
\<close>

theorem MockBlockRepository_Decrement_below_zero:
  "map_sum id (\<lambda>m. map_option (\<lambda>b. sint (RefCount b)) (m ''41''))
     (MockBlockRepository_DecrementBlockRefCount rows_A ''41'') = Inr (Some (- 1))
   \<and> map_sum id (\<lambda>m. map_option (\<lambda>b. sint (RefCount b)) (m ''41''))
       (blockRepository_DecrementBlockRefCount rows_A ''41'') = Inr (Some 0)"
  by (simp add: MockBlockRepository_DecrementBlockRefCount_def
      blockRepository_DecrementBlockRefCount_def rows_A_def NewBlock_A gorm_First_def
      gorm_Save_def)

section \<open>Properties of the fixed-size chunker and of the file service\<close>

lemma blocks_of_Nil [simp]: "blocks_of n [] = []"
  by (simp add: blocks_of.simps)

lemma blocks_of_Cons: "0 < n \<Longrightarrow> xs \<noteq> [] \<Longrightarrow> blocks_of n xs = take n xs # blocks_of n (drop n xs)"
  by (subst blocks_of.simps) simp


lemma blocks_of_nonempty: "b \<in> set (blocks_of n xs) \<Longrightarrow> b \<noteq> []"
proof (induction n xs rule: blocks_of.induct)
  case (1 n xs)
  show ?case
  proof (cases "n = 0 \<or> xs = []")
    case True
    with 1(2) show ?thesis by (auto simp: blocks_of.simps)
  next
    case False
    with 1 show ?thesis by (auto simp: blocks_of_Cons)
  qed
qed

lemma slice_take_drop:
  assumes "0 \<le> i" "i < int (length data)" "0 < bs"
  shows "slice data i (if i + bs > int (length data) then int (length data) else i + bs)
           = Inr (take (nat bs) (drop (nat i) data))"
  using assms by (auto simp: slice_def min_def nat_add_distrib nat_diff_distrib)

lemma FixedSizeChunker_loop_blocks:
  assumes "0 < blockSize c" "0 \<le> i"
  shows "FixedSizeChunker_loop H c data i hashes =
           Some (Inr (hashes @ map H (blocks_of (nat (blockSize c)) (drop (nat i) data))))"
  using assms
proof (induction "length data - nat i" arbitrary: i hashes rule: less_induct)
  case less
  show ?case
  proof (cases "i < int (length data)")
    case False
    then have "drop (nat i) data = []" using less.prems by simp
    with False show ?thesis by (subst FixedSizeChunker_loop.simps) simp
  next
    case True
    have ne: "drop (nat i) data \<noteq> []" using True less.prems by simp
    have sl: "slice data i (if i + blockSize c > int (length data) then int (length data) else i + blockSize c)
           = Inr (take (nat (blockSize c)) (drop (nat i) data))"
      using slice_take_drop[OF less.prems(2) True less.prems(1)] .
    have m: "length data - nat (i + blockSize c) < length data - nat i"
      using True less.prems by linarith
    have dr: "drop (nat (i + blockSize c)) data = drop (nat (blockSize c)) (drop (nat i) data)"
      using less.prems by (simp add: nat_add_distrib add.commute)
    have ih: "FixedSizeChunker_loop H c data (i + blockSize c) (hashes @ [H (take (nat (blockSize c)) (drop (nat i) data))])
       = Some (Inr ((hashes @ [H (take (nat (blockSize c)) (drop (nat i) data))]) @
            map H (blocks_of (nat (blockSize c)) (drop (nat (i + blockSize c)) data))))"
      using less.hyps[OF m less.prems(1)] less.prems by simp
    show ?thesis
      apply (subst FixedSizeChunker_loop.simps)
      using True sl ih ne less.prems(1)
      by (simp add: Let_def dr blocks_of_Cons[of "nat (blockSize c)" "drop (nat i) data"])
  qed
qed

lemma drop_clamped:
  assumes "0 \<le> i" "0 < bs"
  shows "drop (nat (if i + bs > int (length data) then int (length data) else i + bs)) data
           = drop (nat bs) (drop (nat i) data)"
  using assms by (auto simp: nat_add_distrib add.commute)

lemma UploadFile_loop_blocks:
  assumes "0 < bs" "0 \<le> pos"
    and "length chunks = length (blocks_of (nat bs) (drop (nat pos) data))"
  shows "UploadFile_loop H bs data chunks pos hs s =
           (Inr (hs @ map H (blocks_of (nat bs) (drop (nat pos) data))),
            s\<lparr>blockStore := fold (put_block H) (blocks_of (nat bs) (drop (nat pos) data)) (blockStore s),
              blockRepo := fold incr_row (map H (blocks_of (nat bs) (drop (nat pos) data))) (blockRepo s)\<rparr>)"
  using assms
proof (induction chunks arbitrary: pos hs s)
  case Nil
  then show ?case by simp
next
  case (Cons ch chunks)
  define rest where "rest = drop (nat pos) data"
  define e where "e = (if pos + bs > int (length data) then int (length data) else pos + bs)"
  define b where "b = take (nat bs) rest"
  define s1 where "s1 = s\<lparr>blockStore := put_block H b (blockStore s), blockRepo := incr_row (H b) (blockRepo s)\<rparr>"
  have ne: "rest \<noteq> []"
    using Cons.prems(3) by (auto simp: blocks_of.simps rest_def)
  then have lt: "pos < int (length data)" using Cons.prems(2) by (simp add: rest_def)
  have bl: "blocks_of (nat bs) rest = b # blocks_of (nat bs) (drop (nat bs) rest)"
    using blocks_of_Cons[of "nat bs" rest] ne Cons.prems(1) by (simp add: b_def)
  have sl: "slice data pos e = Inr b"
    unfolding e_def b_def rest_def by (rule slice_take_drop[OF Cons.prems(2) lt Cons.prems(1)])
  have dr: "drop (nat e) data = drop (nat bs) rest"
    unfolding e_def rest_def by (rule drop_clamped[OF Cons.prems(2) Cons.prems(1)])
  have tne: "b \<noteq> []" using ne Cons.prems(1) by (simp add: b_def)
  have e0: "0 \<le> e" using Cons.prems by (auto simp: e_def)
  have len: "length chunks = length (blocks_of (nat bs) (drop (nat e) data))"
    using Cons.prems(3) bl dr by (simp add: rest_def)
  have put: "LocalBlockStore_Put H (blockStore s) b = Inr (H b, put_block H b (blockStore s))"
    using tne by (simp add: LocalBlockStore_Put_def Let_def put_block_def)
  have inc: "MockBlockRepository_IncrementRefCount (blockRepo s) (H b) 1 = Inr (incr_row (H b) (blockRepo s))"
    by (simp add: MockBlockRepository_IncrementRefCount_def incr_row_def split: option.split)
  have step: "UploadFile_loop H bs data (ch # chunks) pos hs s
                = UploadFile_loop H bs data chunks e (hs @ [H b]) s1"
    unfolding UploadFile_loop.simps Let_def e_def[symmetric] sl sum.case put prod.case inc s1_def
    by simp
  have ih: "UploadFile_loop H bs data chunks e (hs @ [H b]) s1 =
     (Inr ((hs @ [H b]) @ map H (blocks_of (nat bs) (drop (nat e) data))),
      s1\<lparr>blockStore := fold (put_block H) (blocks_of (nat bs) (drop (nat e) data)) (blockStore s1),
         blockRepo := fold incr_row (map H (blocks_of (nat bs) (drop (nat e) data))) (blockRepo s1)\<rparr>)"
    using Cons.IH[OF Cons.prems(1) e0 len] .
  show ?case
    unfolding step ih rest_def[symmetric] bl dr
    by (simp add: s1_def)
qed

lemma FixedSizeChunker_Chunk_blocks:
  assumes "0 < blockSize c"
  shows "FixedSizeChunker_Chunk H c data = Some (Inr (map H (blocks_of (nat (blockSize c)) data)))"
  using FixedSizeChunker_loop_blocks[OF assms, of 0 H data "[]"]
  by (simp add: FixedSizeChunker_Chunk_def)

lemma FixedSizeChunker_loop_negative:
  assumes "blockSize c < 0" "data \<noteq> []"
  shows "FixedSizeChunker_loop H c data 0 [] = Some (Inl Panic)"
  using assms by (subst FixedSizeChunker_loop.simps) (simp add: slice_def Let_def)

lemma FixedSizeChunker_loop_zero:
  assumes "FixedSizeChunker_loop H c data i hashes = Some r"
  shows "\<not> (blockSize c = 0 \<and> 0 \<le> i \<and> i < int (length data))"
proof (rule FixedSizeChunker_loop.raw_induct
    [where P = "\<lambda>H c data i hashes r. \<not> (blockSize c = 0 \<and> 0 \<le> i \<and> i < int (length data))",
      OF _ assms], goal_cases)
  case (1 loop H c data i hashes r)
  show ?case
  proof
    assume a: "blockSize c = 0 \<and> 0 \<le> i \<and> i < int (length data)"
    then have "slice data i i = Inr []" by (simp add: slice_def)
    with a 1(2) have "loop H c data i (hashes @ [H []]) = Some r"
      by (simp add: Let_def)
    from 1(1)[OF this] a show False by blast
  qed
qed

lemma FixedSizeChunker_Chunk_returns:
  assumes "FixedSizeChunker_Chunk H c data = Some (Inr chunks)" "data \<noteq> []"
  shows "0 < blockSize c"
proof (rule ccontr)
  assume "\<not> 0 < blockSize c"
  then consider "blockSize c < 0" | "blockSize c = 0" by linarith
  then show False
  proof cases
    case 1
    from FixedSizeChunker_loop_negative[OF 1 assms(2), of H] assms show False
      by (simp add: FixedSizeChunker_Chunk_def)
  next
    case 2
    from assms have "FixedSizeChunker_loop H c data 0 [] = Some (Inr chunks)"
      by (simp add: FixedSizeChunker_Chunk_def)
    from FixedSizeChunker_loop_zero[OF this] 2 assms(2) show False by simp
  qed
qed

lemma UploadFile_fixed:
  assumes "chunker s = FixedSize c" "0 < blockSize c" "X \<noteq> []"
  shows "UploadFile H s fileName X =
     Some (Inr \<lparr>FileID = 0, UUID = [], Name = fileName, FileSize = int (length X),
                FileHash = calculateFileHash X,
                BlockIDs = map H (blocks_of (nat (blockSize c)) X), LibraryID = 0\<rparr>,
           s\<lparr>blockStore := fold (put_block H) (blocks_of (nat (blockSize c)) X) (blockStore s),
             blockRepo := fold incr_row (map H (blocks_of (nat (blockSize c)) X)) (blockRepo s),
             fileRepo := (fileRepo s)(calculateFileHash X \<mapsto>
                \<lparr>FileID = 0, UUID = [], Name = fileName, FileSize = int (length X),
                FileHash = calculateFileHash X,
                BlockIDs = map H (blocks_of (nat (blockSize c)) X), LibraryID = 0\<rparr>)\<rparr>)"
proof -
  have loop: "UploadFile_loop H (blockSize c) X (map H (blocks_of (nat (blockSize c)) X)) 0 [] s =
      (Inr (map H (blocks_of (nat (blockSize c)) X)),
       s\<lparr>blockStore := fold (put_block H) (blocks_of (nat (blockSize c)) X) (blockStore s),
         blockRepo := fold incr_row (map H (blocks_of (nat (blockSize c)) X)) (blockRepo s)\<rparr>)"
    using UploadFile_loop_blocks[OF assms(2), of 0 "map H (blocks_of (nat (blockSize c)) X)" X H "[]" s]
    by simp
  show ?thesis
    using assms(1,3)
    by (simp add: UploadFile_def FixedSizeChunker_Chunk_blocks[OF assms(2)] FixedSizeChunker_ChunkSize_def
        loop MockFileRepository_CreateFile_def Let_def)
qed

lemma UploadFile_succeeds:
  assumes "UploadFile H s fileName X = Some (Inr F, s')"
  shows "\<exists>c. chunker s = FixedSize c \<and> 0 < blockSize c \<and> X \<noteq> []"
proof (cases "chunker s")
  case (CDC c)
  with assms show ?thesis by (simp add: UploadFile_def split: if_splits)
next
  case (FixedSize c)
  have ne: "X \<noteq> []" using assms by (auto simp: UploadFile_def)
  from assms FixedSize ne obtain chunks where "FixedSizeChunker_Chunk H c X = Some (Inr chunks)"
    by (auto simp: UploadFile_def split: Option.bind_splits sum.splits)
  from FixedSizeChunker_Chunk_returns[OF this ne] FixedSize ne show ?thesis by simp
qed

lemma fold_put_block_other:
  "h \<notin> H ` set bl \<Longrightarrow> fold (put_block H) bl st h = st h"
  by (induction bl arbitrary: st) (auto simp: put_block_def)

lemma fold_put_block_member:
  "inj_on H (set bl) \<Longrightarrow> b \<in> set bl \<Longrightarrow> fold (put_block H) bl st (H b) = Some b"
proof (induction bl arbitrary: st)
  case Nil
  then show ?case by simp
next
  case (Cons x bl)
  have inj: "inj_on H (set bl)" using Cons.prems(1) by (simp add: inj_on_def)
  show ?case
  proof (cases "b \<in> set bl")
    case True
    with Cons.IH[OF inj] show ?thesis by simp
  next
    case False
    with Cons.prems(2) have bx: "b = x" by simp
    have "H x \<notin> H ` set bl"
      using Cons.prems(1) False bx by (auto simp: inj_on_def)
    then have "fold (put_block H) bl (put_block H x st) (H x) = put_block H x st (H x)"
      by (rule fold_put_block_other)
    moreover have "put_block H x st (H x) = Some x"
      by (simp add: put_block_def)
    ultimately show ?thesis
      using bx by simp
  qed
qed

lemma dom_fold_put_block:
  "dom (fold (put_block H) bl st) = dom st \<union> H ` set bl"
  by (induction bl arbitrary: st) (auto simp: put_block_def)


lemma Sprintf_d_small:
  "Sprintf_d 0 = ''0''" "Sprintf_d 1 = ''1''" "Sprintf_d 2 = ''2''" "Sprintf_d 3 = ''3''"
  by code_simp+

lemma blocks_of_abc: "blocks_of (Suc (Suc 0)) [a, b, c] = [[a, b], [c]]"
  by (simp add: blocks_of_Cons)



subsection \<open>Round trip\<close>

lemma UploadFile_keeps_chunker:
  assumes "UploadFile H s fileName X = Some (Inr F, s')"
  shows "chunker s' = chunker s"
proof -
  from UploadFile_succeeds[OF assms] obtain c where
    c: "chunker s = FixedSize c" "0 < blockSize c" "X \<noteq> []" by blast
  from UploadFile_fixed[OF c, of H fileName] assms show ?thesis by auto
qed




text \<open>
  The digest of a file is the placeholder \<^verbatim>\<open>hash_<length>\<close>. The round trip holds on the
  state that the upload leaves; a later upload of other bytes of the same length
  replaces the row of that digest, and the digest then downloads the later bytes.
\<close>

lemma DownloadFile_after_upload_of_same_length:
  "map_option (\<lambda>(r, s'). DownloadFile s' ''hash_3'')
     (UploadFile hex_encode stack_abc ''e.txt'' [0x44, 0x45, 0x46]) = Some (Inr [0x44, 0x45, 0x46])"
proof -
  have c: "chunker stack_abc = FixedSize (NewFixedSizeChunker 2)"
    by (simp add: stack_abc_def memory_stack_def)
  have bs: "0 < blockSize (NewFixedSizeChunker 2)" "nat (blockSize (NewFixedSizeChunker 2)) = Suc (Suc 0)"
    by (simp_all add: NewFixedSizeChunker_def)
  have enc: "hex_encode [0x44, 0x45] = ''4445''" "hex_encode [0x46] = ''46''"
    by (simp_all add: hex_encode_def hex_char_def)
  show ?thesis
    unfolding UploadFile_fixed[OF c bs(1), of "[0x44, 0x45, 0x46]" hex_encode "''e.txt''", simplified]
      bs(2) blocks_of_abc
    by (simp add: enc calculateFileHash_def Sprintf_d_small DownloadFile_def
        MockFileRepository_GetFileByHash_def LocalBlockStore_Get_def put_block_def)
qed


subsection \<open>The check for an instant upload\<close>

lemma CheckFileHandler_never_exists:
  "CheckFileHandler s newUUID fileHash \<noteq> Exists node"
  by (simp add: CheckFileHandler_def GetFileNodeByContentHash_def)

text \<open>
  Claim C4: the check probes the metadata store and answers \<^verbatim>\<open>exists: true\<close> with the
  identity of the file when a file with the digest exists. \<^verbatim>\<open>GetFileNodeByContentHash\<close>
  returns \<^verbatim>\<open>(nil, nil)\<close> whatever the state holds, so the handler never answers
  \<^verbatim>\<open>exists: true\<close> (lemma \<open>CheckFileHandler_never_exists\<close>). In the state \<open>stack_abc\<close> the
  file repository holds the file with the digest \<open>hash_3\<close>, and the check of this digest
  answers \<^verbatim>\<open>exists: false\<close> with a new upload id.
\<close>

theorem CheckFileHandler_existing_file:
  "MockFileRepository_GetFileByHash (fileRepo stack_abc) ''hash_3'' = Inr (Some file_abc)
   \<and> CheckFileHandler stack_abc ''fresh-id'' ''hash_3'' = NotExists ''fresh-id''"
  by (simp add: MockFileRepository_GetFileByHash_def stack_abc_def CheckFileHandler_def
      GetFileNodeByContentHash_def)

subsection \<open>The missing chunks of an upload session\<close>

lemma RecordChunkReceived_01:
  "(case RecordChunkReceived session_stack ''U'' 0 3 of
      Inl err \<Rightarrow> Inl err
    | Inr s \<Rightarrow> RecordChunkReceived s ''U'' 1 3) = Inr session_01"
  by (simp add: RecordChunkReceived_def session_stack_def session_01_def up_redis_def
      redis_HSet_def redis_Expire_def Sprintf_d_small Let_def)

lemma RecordChunkReceived_02:
  "(case RecordChunkReceived session_stack ''U'' 0 3 of
      Inl err \<Rightarrow> Inl err
    | Inr s \<Rightarrow> RecordChunkReceived s ''U'' 2 3) = Inr session_02"
  by (simp add: RecordChunkReceived_def session_stack_def session_02_def up_redis_def
      redis_HSet_def redis_Expire_def Sprintf_d_small Let_def)


lemma GetMissingChunks_below_first:
  assumes "GetMissingChunks s first uploadID = Inr missing" and "i \<in> set missing"
  shows "i < Sscanf_chunk first"
  using assms
  by (auto simp: GetMissingChunks_def Let_def split: option.splits sum.splits if_splits)

text \<open>
  Claim C3: for a session with \<open>total\<close> chunks and the set \<open>R\<close> of received indices,
  \<^verbatim>\<open>GetMissingChunks\<close> returns \<open>{0..total-1} \<setminus> R\<close>. The session stores no total: the
  code takes the index of the field its \<^verbatim>\<open>range\<close> visits first for the total, so no
  index from that one on is ever reported (lemma \<open>GetMissingChunks_below_first\<close>). With
  the chunks 0 and 1 of 3 received the result is empty whichever field comes first,
  where the claim wants \<open>[2]\<close>. With the chunks 0 and 2 of 3 received the result is the
  \<open>[1]\<close> of the claim when the field of chunk 2 comes first, and empty when the field of
  chunk 0 does.
\<close>

theorem GetMissingChunks_misses_chunks:
  "GetMissingChunks session_01 ''chunk:0'' ''U'' = Inr []
   \<and> GetMissingChunks session_01 ''chunk:1'' ''U'' = Inr []
   \<and> GetMissingChunks session_02 ''chunk:0'' ''U'' = Inr []
   \<and> GetMissingChunks session_02 ''chunk:2'' ''U'' = Inr [1]"
  by code_simp

subsection \<open>Deduplication\<close>

lemma incr_row_other: "x \<noteq> h \<Longrightarrow> incr_row x m h = m h"
  by (simp add: incr_row_def split: option.split)

lemma incr_row_same: "m h = Some row \<Longrightarrow> incr_row h m h = Some (row\<lparr>RefCount := RefCount row + 1\<rparr>)"
  by (simp add: incr_row_def)

lemma fold_incr_row_count:
  "m h = Some row \<Longrightarrow>
   fold incr_row hs m h = Some (row\<lparr>RefCount := RefCount row + of_nat (count_list hs h)\<rparr>)"
proof (induction hs arbitrary: m row)
  case Nil
  then show ?case by simp
next
  case (Cons x hs)
  show ?case
  proof (cases "x = h")
    case True
    from incr_row_same[of m h row] Cons.prems True
    have "incr_row x m h = Some (row\<lparr>RefCount := RefCount row + 1\<rparr>)" by simp
    from Cons.IH[of "incr_row x m" "row\<lparr>RefCount := RefCount row + 1\<rparr>"] this True
    show ?thesis by (simp add: add.assoc add.commute)
  next
    case False
    with Cons.prems have "incr_row x m h = Some row" by (simp add: incr_row_other)
    from Cons.IH[of "incr_row x m" row] this False show ?thesis by simp
  qed
qed

lemma UploadFile_each_keeps_chunker:
  "UploadFile_each H s fileNames X = Some s' \<Longrightarrow> chunker s' = chunker s"
proof (induction fileNames arbitrary: s)
  case Nil
  then show ?case by simp
next
  case (Cons n ns)
  from Cons.prems obtain F s1 where
    up: "UploadFile H s n X = Some (Inr F, s1)" and rest: "UploadFile_each H s1 ns X = Some s'"
    by (auto split: option.splits sum.splits prod.splits)
  from Cons.IH[OF rest] UploadFile_keeps_chunker[OF up] show ?case by simp
qed

lemma UploadFile_each_store:
  assumes "chunker s = FixedSize c" "UploadFile_each H s fileNames X = Some s'"
    and "inj_on H (set (blocks_of (nat (blockSize c)) X))"
  shows "(fileNames \<noteq> [] \<longrightarrow> (\<forall>b \<in> set (blocks_of (nat (blockSize c)) X). blockStore s' (H b) = Some b))
       \<and> dom (blockStore s') = dom (blockStore s) \<union>
            (if fileNames = [] then {} else H ` set (blocks_of (nat (blockSize c)) X))"
  using assms(1,2)
proof (induction fileNames arbitrary: s)
  case Nil
  then show ?case by simp
next
  case (Cons n ns)
  let ?bl = "blocks_of (nat (blockSize c)) X"
  from Cons.prems obtain F s1 where
    up: "UploadFile H s n X = Some (Inr F, s1)" and rest: "UploadFile_each H s1 ns X = Some s'"
    by (auto split: option.splits sum.splits prod.splits)
  from UploadFile_succeeds[OF up] Cons.prems(1) have bs: "0 < blockSize c" "X \<noteq> []" by auto
  from UploadFile_fixed[OF Cons.prems(1) bs, of H n] up
  have s1: "blockStore s1 = fold (put_block H) ?bl (blockStore s)" "chunker s1 = FixedSize c"
    using Cons.prems(1) by auto
  have look1: "\<forall>b \<in> set ?bl. blockStore s1 (H b) = Some b"
    by (simp add: s1(1) fold_put_block_member[OF assms(3)])
  have dom1: "dom (blockStore s1) = dom (blockStore s) \<union> H ` set ?bl"
    by (simp add: s1(1) dom_fold_put_block)
  show ?case
  proof (cases "ns = []")
    case True
    with rest have "s' = s1" by simp
    with look1 dom1 show ?thesis by simp
  next
    case False
    from Cons.IH[OF s1(2) rest] False dom1 show ?thesis by auto
  qed
qed

lemma UploadFile_each_counts:
  assumes "chunker s = FixedSize c" "UploadFile_each H s fileNames X = Some s'"
    and "blockRepo s h = Some row"
  shows "blockRepo s' h = Some (row\<lparr>RefCount := RefCount row +
           of_nat (length fileNames * count_list (map H (blocks_of (nat (blockSize c)) X)) h)\<rparr>)"
  using assms
proof (induction fileNames arbitrary: s row)
  case Nil
  then show ?case by simp
next
  case (Cons n ns)
  let ?hs = "map H (blocks_of (nat (blockSize c)) X)"
  from Cons.prems obtain F s1 where
    up: "UploadFile H s n X = Some (Inr F, s1)" and rest: "UploadFile_each H s1 ns X = Some s'"
    by (auto split: option.splits sum.splits prod.splits)
  from UploadFile_succeeds[OF up] Cons.prems(1) have bs: "0 < blockSize c" "X \<noteq> []" by auto
  from UploadFile_fixed[OF Cons.prems(1) bs, of H n] up
  have s1: "blockRepo s1 = fold incr_row ?hs (blockRepo s)" "chunker s1 = FixedSize c"
    using Cons.prems(1) by auto
  have row1: "blockRepo s1 h = Some (row\<lparr>RefCount := RefCount row + of_nat (count_list ?hs h)\<rparr>)"
    unfolding s1(1) using Cons.prems(3) fold_incr_row_count[of "blockRepo s" h row ?hs] by simp
  from Cons.IH[OF s1(2) rest row1] show ?case
    by (simp add: algebra_simps)
qed

lemma UploadFile_each_defined:
  assumes "chunker s = FixedSize c" "0 < blockSize c" "X \<noteq> []"
  shows "\<exists>s'. UploadFile_each H s fileNames X = Some s'"
  using assms(1)
proof (induction fileNames arbitrary: s)
  case Nil
  then show ?case by simp
next
  case (Cons n ns)
  from UploadFile_fixed[OF Cons.prems assms(2,3), of H n]
  obtain F s1 where up: "UploadFile H s n X = Some (Inr F, s1)" by blast
  from UploadFile_keeps_chunker[OF up] Cons.prems have "chunker s1 = FixedSize c" by simp
  from Cons.IH[OF this] up show ?case by simp
qed

lemma zeros_blocks:
  "blocks_of (nat (blockSize (NewFixedSizeChunker 1))) [0x00, 0x00 :: byte] = [[0x00], [0x00]]"
  by (simp add: NewFixedSizeChunker_def blocks_of_Cons)

lemma hex_encode_zero: "hex_encode [0x00] = ''00''"
  by (simp add: hex_encode_def hex_char_def)


text \<open>
  \<^verbatim>\<open>UploadFile\<close> only increments: on a digest without a metadata row the increment of the
  in-memory repository does nothing and the one of the GORM repository fails, and no
  upload creates a row.
\<close>

lemma MockBlockRepository_IncrementRefCount_missing:
  "m hash = None \<Longrightarrow> MockBlockRepository_IncrementRefCount m hash delta = Inr m"
  by (simp add: MockBlockRepository_IncrementRefCount_def)

lemma blockRepository_IncrementRefCount_missing:
  "db hash = None \<Longrightarrow> blockRepository_IncrementRefCount db hash delta = Inl RecordNotFound"
  by (simp add: blockRepository_IncrementRefCount_def gorm_First_def)

lemma fold_incr_row_missing: "m h = None \<Longrightarrow> fold incr_row hs m h = None"
proof (induction hs arbitrary: m)
  case Nil
  then show ?case by simp
next
  case (Cons x hs)
  have "incr_row x m h = None"
    using Cons.prems by (cases "x = h") (simp_all add: incr_row_def split: option.split)
  from Cons.IH[of "incr_row x m"] this show ?case by simp
qed

lemma UploadFile_creates_no_row:
  assumes "UploadFile H s fileName X = Some (Inr F, s')" and "blockRepo s h = None"
  shows "blockRepo s' h = None"
proof -
  from UploadFile_succeeds[OF assms(1)] obtain c where
    c: "chunker s = FixedSize c" "0 < blockSize c" "X \<noteq> []" by blast
  from UploadFile_fixed[OF c, of H fileName] assms(1)
  have "blockRepo s' = fold incr_row (map H (blocks_of (nat (blockSize c)) X)) (blockRepo s)"
    by auto
  with fold_incr_row_missing[of "blockRepo s" h] assms(2) show ?thesis by simp
qed


text \<open>
  Claim C2: after \<open>X\<close> was uploaded \<open>n\<close> times the block store holds exactly one copy of
  each block of \<open>X\<close>, and the reference count in the metadata of each block is \<open>n\<close>.
  The count is not \<open>n\<close> when a block occurs more than once in \<open>X\<close>: every occurrence
  adds 1. On \<open>zeros_stack\<close> one upload of two zero bytes, cut into the two equal blocks
  \<open>[0x00]\<close>, takes the count of that block from 0 to 2.
\<close>

theorem UploadFile_each_ref_count_counterexample:
  "map_option (\<lambda>s'. map_option RefCount (blockRepo s' ''00''))
     (UploadFile_each hex_encode zeros_stack [''a''] [0x00, 0x00]) = Some (Some 2)
   \<and> (2 :: 64 word) \<noteq> of_nat (length [''a''])"
proof -
  have c: "chunker zeros_stack = FixedSize (NewFixedSizeChunker 1)"
    by (simp add: zeros_stack_def)
  have bs: "0 < blockSize (NewFixedSizeChunker 1)"
    by (simp add: NewFixedSizeChunker_def)
  from UploadFile_each_defined[OF c bs, of "[0x00, 0x00]" hex_encode "[''a'']"]
  obtain s' where s': "UploadFile_each hex_encode zeros_stack [''a''] [0x00, 0x00] = Some s'"
    by auto
  have row: "blockRepo zeros_stack ''00'' = Some (NewBlock hex_encode [0x00])"
    by (simp add: zeros_stack_def)
  from UploadFile_each_counts[OF c s' row]
  have "map_option RefCount (blockRepo s' ''00'') = Some 2"
    by (simp add: zeros_blocks hex_encode_zero NewBlock_def)
  with s' show ?thesis by simp
qed


text \<open>
  Claim C2 as amended: after \<open>n \<ge> 1\<close> successful uploads of \<open>X\<close> under the names
  \<open>fileNames\<close>, the block store maps the digest of each block of \<open>X\<close> to that block (one
  entry for each digest), it has gained no other entry, and every digest \<open>h\<close> that had a
  metadata row before the uploads has its reference count raised by \<open>n\<close> times the number
  of occurrences of \<open>h\<close> in the digest list of \<open>X\<close> (in 64-bit arithmetic). As in C1, no
  two different blocks of \<open>X\<close> may share a digest.
\<close>

theorem UploadFile_each_dedup:
  assumes "chunker s = FixedSize c" "UploadFile_each H s fileNames X = Some s'"
    and "fileNames \<noteq> []"
    and "inj_on H (set (blocks_of (nat (blockSize c)) X))"
  shows "(\<forall>b \<in> set (blocks_of (nat (blockSize c)) X). blockStore s' (H b) = Some b)
       \<and> dom (blockStore s') = dom (blockStore s) \<union> H ` set (blocks_of (nat (blockSize c)) X)
       \<and> (\<forall>h row. blockRepo s h = Some row \<longrightarrow>
            blockRepo s' h = Some (row\<lparr>RefCount := RefCount row +
              of_nat (length fileNames * count_list (map H (blocks_of (nat (blockSize c)) X)) h)\<rparr>))"
  using UploadFile_each_store[OF assms(1,2,4)] assms(3) UploadFile_each_counts[OF assms(1,2)]
  by auto


theorem UploadFile_each_dedup_witness:
  "map_option (\<lambda>s'. (blockStore s' ''00'', map_option RefCount (blockRepo s' ''00'')))
     (UploadFile_each hex_encode zeros_stack [''a'', ''b''] [0x00, 0x00])
   = Some (Some [0x00], Some 4)"
proof -
  have c: "chunker zeros_stack = FixedSize (NewFixedSizeChunker 1)"
    by (simp add: zeros_stack_def)
  have bs: "0 < blockSize (NewFixedSizeChunker 1)"
    by (simp add: NewFixedSizeChunker_def)
  from UploadFile_each_defined[OF c bs, of "[0x00, 0x00]" hex_encode "[''a'', ''b'']"]
  obtain s' where s': "UploadFile_each hex_encode zeros_stack [''a'', ''b''] [0x00, 0x00] = Some s'"
    by auto
  have names: "[''a'', ''b''] \<noteq> []" by simp
  have inj: "inj_on hex_encode
      (set (blocks_of (nat (blockSize (NewFixedSizeChunker 1))) [0x00, 0x00 :: byte]))"
    by (simp add: zeros_blocks)
  have row: "blockRepo zeros_stack ''00'' = Some (NewBlock hex_encode [0x00])"
    by (simp add: zeros_stack_def)
  from UploadFile_each_dedup[OF c s' names inj] row
  have "blockStore s' ''00'' = Some [0x00]"
    and "map_option RefCount (blockRepo s' ''00'') = Some 4"
    by (simp_all add: zeros_blocks hex_encode_zero NewBlock_def)
  with s' show ?thesis by simp
qed

subsection \<open>Deleting a file\<close>

lemma hex_encode_d: "hex_encode [0x44] = ''44''"
  by (simp add: hex_encode_def hex_char_def)

lemma UploadFile_d:
  "UploadFile hex_encode stack_abc ''d.txt'' [0x44] = Some (Inr file_d, stack_two)"
proof -
  have c: "chunker stack_abc = FixedSize (NewFixedSizeChunker 2)"
    by (simp add: stack_abc_def memory_stack_def)
  have bs: "0 < blockSize (NewFixedSizeChunker 2)" "nat (blockSize (NewFixedSizeChunker 2)) = Suc (Suc 0)"
    by (simp_all add: NewFixedSizeChunker_def)
  have bl: "blocks_of (Suc (Suc 0)) [0x44 :: byte] = [[0x44]]"
    by (simp add: blocks_of_Cons)
  show ?thesis
    unfolding UploadFile_fixed[OF c bs(1), of "[0x44]" hex_encode "''d.txt''", simplified] bs(2) bl
    by (simp add: hex_encode_d calculateFileHash_def Sprintf_d_small file_d_def stack_two_def
        stack_abc_def memory_stack_def put_block_def incr_row_def NewLocalBlockStore_def
        NewMockBlockRepository_def NewMockFileRepository_def fun_upd_twist)
qed

lemma DeleteFile_blockStore:
  "blockStore (snd (DeleteFile order s fileHash)) = blockStore s"
  by (simp add: DeleteFile_def MockFileRepository_GetFileByHash_def MockFileRepository_DeleteFile_def
      Let_def split: option.split)

lemma DeleteFile_loop_fold: "DeleteFile_loop m hs = fold decr_row hs m"
  by (induction hs arbitrary: m)
    (simp_all add: MockBlockRepository_DecrementBlockRefCount_def decr_row_def split: option.split)

lemma decr_row_other: "x \<noteq> h \<Longrightarrow> decr_row x m h = m h"
  by (simp add: decr_row_def split: option.split)

lemma decr_row_same: "m h = Some row \<Longrightarrow> decr_row h m h = Some (row\<lparr>RefCount := RefCount row - 1\<rparr>)"
  by (simp add: decr_row_def)

lemma fold_decr_row_count:
  "m h = Some row \<Longrightarrow>
   fold decr_row hs m h = Some (row\<lparr>RefCount := RefCount row - of_nat (count_list hs h)\<rparr>)"
proof (induction hs arbitrary: m row)
  case Nil
  then show ?case by simp
next
  case (Cons x hs)
  show ?case
  proof (cases "x = h")
    case True
    from decr_row_same[of m h row] Cons.prems True
    have "decr_row x m h = Some (row\<lparr>RefCount := RefCount row - 1\<rparr>)" by simp
    from Cons.IH[of "decr_row x m" "row\<lparr>RefCount := RefCount row - 1\<rparr>"] this True
    show ?thesis by (simp add: algebra_simps)
  next
    case False
    with Cons.prems have "decr_row x m h = Some row" by (simp add: decr_row_other)
    from Cons.IH[of "decr_row x m" row] this False show ?thesis by simp
  qed
qed

lemma DeleteFile_loop_count:
  "m h = Some row \<Longrightarrow>
   DeleteFile_loop m hs h = Some (row\<lparr>RefCount := RefCount row - of_nat (count_list hs h)\<rparr>)"
  by (simp add: DeleteFile_loop_fold fold_decr_row_count)

lemma MockFileRepository_DeleteFile_range_unique:
  assumes "m h = Some F" "h \<in> set order"
    and "\<And>k G. m k = Some G \<Longrightarrow> FileID G = FileID F \<Longrightarrow> k = h"
  shows "MockFileRepository_DeleteFile_range order m (FileID F) = m(h := None)"
  using assms(2)
proof (induction order)
  case Nil
  then show ?case by simp
next
  case (Cons k ks)
  show ?case
  proof (cases "m k")
    case None
    with Cons assms(1) show ?thesis by auto
  next
    case (Some G)
    show ?thesis
    proof (cases "FileID G = FileID F")
      case True
      with assms(3)[OF Some] have "k = h" by simp
      with Some True show ?thesis by simp
    next
      case False
      with Some assms(1) have "k \<noteq> h" by auto
      with Cons Some False show ?thesis by simp
    qed
  qed
qed

lemma DeleteFile_stored:
  assumes "fileRepo s fileHash = Some F"
  shows "fst (DeleteFile order s fileHash) = Inr ()"
    and "blockRepo (snd (DeleteFile order s fileHash)) = DeleteFile_loop (blockRepo s) (BlockIDs F)"
    and "fileRepo (snd (DeleteFile order s fileHash))
           = MockFileRepository_DeleteFile_range order (fileRepo s) (FileID F)"
  by (simp_all add: DeleteFile_def MockFileRepository_GetFileByHash_def
      MockFileRepository_DeleteFile_def Let_def assms)

lemma DeleteFile_unique_ID:
  assumes "fileRepo s fileHash = Some F" "fileHash \<in> set order"
    and "\<And>k G. fileRepo s k = Some G \<Longrightarrow> FileID G = FileID F \<Longrightarrow> k = fileHash"
  shows "fileRepo (snd (DeleteFile order s fileHash)) = (fileRepo s)(fileHash := None)"
proof -
  have "MockFileRepository_DeleteFile_range order (fileRepo s) (FileID F)
          = (fileRepo s)(fileHash := None)"
  proof (rule MockFileRepository_DeleteFile_range_unique[of "fileRepo s" fileHash F order])
    show "fileRepo s fileHash = Some F" by (rule assms(1))
    show "fileHash \<in> set order" by (rule assms(2))
    show "k = fileHash" if "fileRepo s k = Some G" "FileID G = FileID F" for k G
      using that by (rule assms(3))
  qed
  then show ?thesis
    using DeleteFile_stored(3)[OF assms(1), of order] by simp
qed

text \<open>
  Claim C9: for every stored file \<open>F\<close>, \<^verbatim>\<open>DeleteFile(F.Hash)\<close> decrements the reference
  count of each block digest of \<open>F\<close> with multiplicity, removes the file row of \<open>F\<close>, and
  leaves the block store as it is. The block store is not touched (lemma
  \<open>DeleteFile_blockStore\<close>) and each row loses the number of occurrences of its digest
  (lemmas \<open>DeleteFile_stored\<close>, \<open>DeleteFile_loop_count\<close>). The row that goes is the first
  one the in-memory repository meets with the \<^verbatim>\<open>ID\<close> of \<open>F\<close>; it is the row of \<open>F\<close> when no
  other stored file has this \<^verbatim>\<open>ID\<close> (lemma \<open>DeleteFile_unique_ID\<close>). But \<^verbatim>\<open>UploadFile\<close>
  leaves the \<^verbatim>\<open>ID\<close> of every file 0 and the in-memory repository assigns none. In
  \<open>stack_two\<close>, reached by two uploads, the deletion of the file \<open>hash_3\<close> with the
  \<^verbatim>\<open>range\<close> visiting the key \<open>hash_1\<close> first returns without error, keeps the row of
  \<open>hash_3\<close> and removes the row of the other file.
\<close>

theorem DeleteFile_removes_other_file:
  "fst (DeleteFile [''hash_1'', ''hash_3''] stack_two ''hash_3'') = Inr ()
   \<and> fileRepo stack_two ''hash_3'' = Some file_abc
   \<and> fileRepo (snd (DeleteFile [''hash_1'', ''hash_3''] stack_two ''hash_3'')) ''hash_3'' = Some file_abc
   \<and> fileRepo stack_two ''hash_1'' = Some file_d
   \<and> fileRepo (snd (DeleteFile [''hash_1'', ''hash_3''] stack_two ''hash_3'')) ''hash_1'' = None"
  by (simp add: DeleteFile_def MockFileRepository_GetFileByHash_def MockFileRepository_DeleteFile_def
      stack_two_def file_abc_def file_d_def memory_stack_def NewMockBlockRepository_def
      MockBlockRepository_DecrementBlockRefCount_def Let_def)


section \<open>Properties of the content-defined chunker\<close>

lemma add64_exact: "- (2 ^ 63) \<le> a + b \<Longrightarrow> a + b < 2 ^ 63 \<Longrightarrow> add64 a b = a + b"
  unfolding add64_def by (rule signed_take_bit_int_eq_self)

lemma add64_range: "- (2 ^ 63) \<le> add64 a b" "add64 a b < 2 ^ 63"
  unfolding add64_def by (rule signed_take_bit_int_greater_eq_minus_exp signed_take_bit_int_less_exp)+

lemma add64_overflow:
  assumes "2 ^ 63 \<le> a + b" "a + b < 2 ^ 64"
  shows "add64 a b < 0"
proof -
  have "add64 a b \<le> a + b - 2 ^ Suc 63"
    unfolding add64_def using assms(1) by (rule signed_take_bit_int_less_eq)
  with assms(2) show ?thesis by simp
qed

lemma NewCDCChunker_sizes:
  "0 < minSize (NewCDCChunker a b c) \<and> minSize (NewCDCChunker a b c) < avgSize (NewCDCChunker a b c)
   \<and> avgSize (NewCDCChunker a b c) < maxSize (NewCDCChunker a b c)"
  by (simp add: NewCDCChunker_def Let_def)

lemma NewCDCChunker_kept:
  "0 < a \<Longrightarrow> a < b \<Longrightarrow> b < c \<Longrightarrow>
   NewCDCChunker a b c = \<lparr>minSize = a, maxSize = c, avgSize = b, windowSize = 64\<rparr>"
  by (simp add: NewCDCChunker_def Let_def)

lemma isChunkBoundary_total:
  "avgSize c \<noteq> 0 \<Longrightarrow> \<exists>boundary. isChunkBoundary c data e = Inr boundary"
  by (auto simp: isChunkBoundary_def)

lemma CDCChunker_scan_total:
  assumes "avgSize c \<noteq> 0" "int (length data) < 2 ^ 63" "- (2 ^ 63) \<le> e"
  shows "\<exists>r. CDCChunker_scan c data pos e = Some (Inr r) \<and> e \<le> r
           \<and> (r = e \<or> (r \<le> add64 pos (maxSize c) \<and> r \<le> int (length data)))"
  using assms(3)
proof (induction "nat (int (length data) - e)" arbitrary: e rule: less_induct)
  case less
  show ?case
  proof (cases "e < add64 pos (maxSize c) \<and> e < int (length data)")
    case False
    then show ?thesis by (subst CDCChunker_scan.simps) auto
  next
    case True
    from isChunkBoundary_total[OF assms(1)] obtain boundary where
      bd: "isChunkBoundary c data e = Inr boundary" by blast
    show ?thesis
    proof (cases boundary)
      case True
      with bd \<open>e < add64 pos (maxSize c) \<and> e < int (length data)\<close> show ?thesis
        by (subst CDCChunker_scan.simps) simp
    next
      case False
      have inc: "add64 e 1 = e + 1"
        using True less.prems assms(2) by (intro add64_exact) auto
      have m: "nat (int (length data) - (e + 1)) < nat (int (length data) - e)"
        using True by auto
      from less.hyps[OF m] less.prems obtain r where
        r: "CDCChunker_scan c data pos (e + 1) = Some (Inr r)" "e + 1 \<le> r"
           "r = e + 1 \<or> (r \<le> add64 pos (maxSize c) \<and> r \<le> int (length data))"
        by auto
      have "CDCChunker_scan c data pos e = Some (Inr r)"
        using True bd False inc r(1) by (subst CDCChunker_scan.simps) simp
      moreover have "e \<le> r" using r(2) by simp
      moreover have "r \<le> add64 pos (maxSize c) \<and> r \<le> int (length data)"
        using r(3) True by auto
      ultimately show ?thesis by blast
    qed
  qed
qed

lemma CDCChunker_chunkEnd_total:
  assumes "0 < minSize c" "minSize c < maxSize c" "avgSize c \<noteq> 0" "maxSize c < 2 ^ 63"
    and "int (length data) < 2 ^ 63" "0 \<le> pos" "pos < int (length data)"
  shows "\<exists>e. CDCChunker_chunkEnd c data pos = Some (Inr e)
           \<and> (if pos + maxSize c < 2 ^ 63
               then pos < e \<and> e \<le> int (length data) \<and> e - pos \<le> maxSize c
                    \<and> (e < int (length data) \<longrightarrow> pos + minSize c \<le> e)
               else e < 0)"
proof -
  from CDCChunker_scan_total[where e = "add64 pos (minSize c)" and pos = pos,
      OF assms(3,5) add64_range(1)]
  obtain r where
    r: "CDCChunker_scan c data pos (add64 pos (minSize c)) = Some (Inr r)"
       "add64 pos (minSize c) \<le> r"
       "r = add64 pos (minSize c) \<or> (r \<le> add64 pos (maxSize c) \<and> r \<le> int (length data))"
    by blast
  define e1 where "e1 = (if r > add64 pos (maxSize c) then add64 pos (maxSize c) else r)"
  define e where "e = (if e1 > int (length data) then int (length data) else e1)"
  have ce: "CDCChunker_chunkEnd c data pos = Some (Inr e)"
    by (simp add: CDCChunker_chunkEnd_def r(1) Let_def e_def e1_def)
  show ?thesis
  proof (cases "pos + maxSize c < 2 ^ 63")
    case True
    have bmax: "add64 pos (maxSize c) = pos + maxSize c"
      using True assms by (intro add64_exact) auto
    have bmin: "add64 pos (minSize c) = pos + minSize c"
      using True assms by (intro add64_exact) auto
    have "pos < e \<and> e \<le> int (length data) \<and> e - pos \<le> maxSize c
                    \<and> (e < int (length data) \<longrightarrow> pos + minSize c \<le> e)"
      using r(2,3) assms(1,2,6,7) unfolding e_def e1_def bmax bmin by auto
    with ce True show ?thesis by auto
  next
    case False
    have "add64 pos (maxSize c) < 0"
      using False assms by (intro add64_overflow) auto
    then have "e < 0" unfolding e_def e1_def by auto
    with ce False show ?thesis by auto
  qed
qed

lemma slice_in_range:
  "0 \<le> lo \<Longrightarrow> lo \<le> hi \<Longrightarrow> hi \<le> int (length xs) \<Longrightarrow>
   slice xs lo hi = Inr (take (nat (hi - lo)) (drop (nat lo) xs))"
  by (simp add: slice_def)

lemma slice_negative: "hi < 0 \<Longrightarrow> slice xs lo hi = Inl Panic"
  by (simp add: slice_def)

lemma CDCChunker_loop_total:
  assumes "0 < minSize c" "minSize c < maxSize c" "avgSize c \<noteq> 0" "maxSize c < 2 ^ 63"
    and "int (length data) < 2 ^ 63" "0 \<le> pos"
  shows "\<exists>r. CDCChunker_loop c data pos chunks = Some r"
  using assms(6)
proof (induction "nat (int (length data) - pos)" arbitrary: pos chunks rule: less_induct)
  case less
  show ?case
  proof (cases "pos < int (length data)")
    case False
    then show ?thesis by (subst CDCChunker_loop.simps) simp
  next
    case True
    from CDCChunker_chunkEnd_total[OF assms(1-5) less.prems True] obtain e where
      e: "CDCChunker_chunkEnd c data pos = Some (Inr e)"
         "if pos + maxSize c < 2 ^ 63
          then pos < e \<and> e \<le> int (length data) \<and> e - pos \<le> maxSize c
               \<and> (e < int (length data) \<longrightarrow> pos + minSize c \<le> e)
          else e < 0"
      by blast
    show ?thesis
    proof (cases "pos + maxSize c < 2 ^ 63")
      case False
      with e(2) have "slice data pos e = Inl Panic" by (simp add: slice_negative)
      with True e(1) show ?thesis by (subst CDCChunker_loop.simps) simp
    next
      case nowrap: True
      with e(2) have adv: "pos < e" "e \<le> int (length data)" by auto
      then have sl: "slice data pos e = Inr (take (nat (e - pos)) (drop (nat pos) data))"
        using less.prems by (intro slice_in_range) auto
      have m: "nat (int (length data) - e) < nat (int (length data) - pos)"
        using adv True by auto
      have "0 \<le> e" using adv less.prems by simp
      from less.hyps[OF m this] obtain r where
        "CDCChunker_loop c data e (chunks @ [take (nat (e - pos)) (drop (nat pos) data)]) = Some r"
        by blast
      with True e(1) sl show ?thesis by (subst CDCChunker_loop.simps) simp
    qed
  qed
qed

lemma CDCChunker_loop_returns:
  assumes "0 < minSize c" "minSize c < maxSize c" "avgSize c \<noteq> 0"
    and "int (length data) + maxSize c < 2 ^ 63" "0 \<le> pos"
  shows "\<exists>blocks. CDCChunker_loop c data pos chunks = Some (Inr blocks)"
  using assms(5)
proof (induction "nat (int (length data) - pos)" arbitrary: pos chunks rule: less_induct)
  case less
  have r1: "maxSize c < 2 ^ 63" and r2: "int (length data) < 2 ^ 63"
    using assms(1,2,4) by auto
  show ?case
  proof (cases "pos < int (length data)")
    case False
    then show ?thesis by (subst CDCChunker_loop.simps) simp
  next
    case True
    have nowrap: "pos + maxSize c < 2 ^ 63" using True assms(4) by auto
    from CDCChunker_chunkEnd_total[OF assms(1-3) r1 r2 less.prems True] nowrap obtain e where
      e: "CDCChunker_chunkEnd c data pos = Some (Inr e)" "pos < e" "e \<le> int (length data)"
      by auto
    then have sl: "slice data pos e = Inr (take (nat (e - pos)) (drop (nat pos) data))"
      using less.prems by (intro slice_in_range) auto
    have m: "nat (int (length data) - e) < nat (int (length data) - pos)"
      using e True by auto
    have "0 \<le> e" using e less.prems by simp
    from less.hyps[OF m this] obtain blocks where
      "CDCChunker_loop c data e (chunks @ [take (nat (e - pos)) (drop (nat pos) data)])
         = Some (Inr blocks)"
      by blast
    with True e(1) sl show ?thesis by (subst CDCChunker_loop.simps) simp
  qed
qed

lemma CDCChunker_loop_blocks:
  assumes "0 < minSize c" "minSize c < maxSize c" "avgSize c \<noteq> 0" "maxSize c < 2 ^ 63"
    and "int (length data) < 2 ^ 63" "0 \<le> pos"
    and "CDCChunker_loop c data pos chunks = Some (Inr blocks)"
  shows "\<exists>new. blocks = chunks @ new \<and> concat new = drop (nat pos) data
           \<and> (\<forall>b \<in> set new. 0 < length b \<and> int (length b) \<le> maxSize c)
           \<and> (\<forall>b \<in> set (butlast new). minSize c \<le> int (length b))"
  using assms(6,7)
proof (induction "nat (int (length data) - pos)" arbitrary: pos chunks rule: less_induct)
  case less
  show ?case
  proof (cases "pos < int (length data)")
    case False
    with less.prems(2) have "blocks = chunks"
      by (subst (asm) CDCChunker_loop.simps) simp
    moreover have "drop (nat pos) data = []" using False less.prems(1) by simp
    ultimately show ?thesis by simp
  next
    case True
    from CDCChunker_chunkEnd_total[OF assms(1-5) less.prems(1) True] obtain e where
      e: "CDCChunker_chunkEnd c data pos = Some (Inr e)"
         "if pos + maxSize c < 2 ^ 63
          then pos < e \<and> e \<le> int (length data) \<and> e - pos \<le> maxSize c
               \<and> (e < int (length data) \<longrightarrow> pos + minSize c \<le> e)
          else e < 0"
      by blast
    have nowrap: "pos + maxSize c < 2 ^ 63"
    proof (rule ccontr)
      assume "\<not> pos + maxSize c < 2 ^ 63"
      with e(2) have "slice data pos e = Inl Panic" by (simp add: slice_negative)
      with True e(1) have "CDCChunker_loop c data pos chunks = Some (Inl Panic)"
        by (subst CDCChunker_loop.simps) simp
      with less.prems(2) show False by simp
    qed
    with e(2) have adv: "pos < e" "e \<le> int (length data)" "e - pos \<le> maxSize c"
      and mn: "e < int (length data) \<Longrightarrow> pos + minSize c \<le> e" by auto
    define chunk where "chunk = take (nat (e - pos)) (drop (nat pos) data)"
    have sl: "slice data pos e = Inr chunk"
      unfolding chunk_def using adv less.prems(1) by (intro slice_in_range) auto
    have len: "int (length chunk) = e - pos"
      using adv less.prems(1) by (auto simp: chunk_def)
    have rest: "CDCChunker_loop c data e (chunks @ [chunk]) = Some (Inr blocks)"
      using less.prems(2) True e(1) sl by (subst (asm) CDCChunker_loop.simps) simp
    have m: "nat (int (length data) - e) < nat (int (length data) - pos)"
      using adv True by auto
    have e0: "0 \<le> e" using adv less.prems by simp
    from less.hyps[OF m e0 rest] obtain new where
      new: "blocks = (chunks @ [chunk]) @ new" "concat new = drop (nat e) data"
           "\<forall>b \<in> set new. 0 < length b \<and> int (length b) \<le> maxSize c"
           "\<forall>b \<in> set (butlast new). minSize c \<le> int (length b)"
      by blast
    have cat: "concat (chunk # new) = drop (nat pos) data"
    proof -
      have d: "drop (nat e) data = drop (nat (e - pos)) (drop (nat pos) data)"
        using adv less.prems(1) by (simp add: nat_diff_distrib)
      have "concat (chunk # new) = chunk @ drop (nat e) data"
        by (simp add: new(2))
      also have "\<dots> = take (nat (e - pos)) (drop (nat pos) data)
                    @ drop (nat (e - pos)) (drop (nat pos) data)"
        unfolding d chunk_def ..
      also have "\<dots> = drop (nat pos) data"
        by (rule append_take_drop_id)
      finally show ?thesis .
    qed
    have all: "\<forall>b \<in> set (chunk # new). 0 < length b \<and> int (length b) \<le> maxSize c"
      using new(3) len adv by auto
    have but: "\<forall>b \<in> set (butlast (chunk # new)). minSize c \<le> int (length b)"
    proof (cases "new = []")
      case True
      then show ?thesis by simp
    next
      case False
      have "e < int (length data)"
      proof (rule ccontr)
        assume "\<not> e < int (length data)"
        then have "CDCChunker_loop c data e (chunks @ [chunk]) = Some (Inr (chunks @ [chunk]))"
          by (subst CDCChunker_loop.simps) simp
        with rest new(1) False show False by simp
      qed
      from mn[OF this] len have "minSize c \<le> int (length chunk)" by simp
      with new(4) False show ?thesis by simp
    qed
    from new(1) cat all but show ?thesis
      by (intro exI[of _ "chunk # new"]) simp
  qed
qed

lemma cdc_248_sizes: "minSize cdc_248 = 2" "avgSize cdc_248 = 4" "maxSize cdc_248 = 8"
  by (simp_all add: cdc_248_def NewCDCChunker_def)

lemma add64_small: "add64 0 2 = 2" "add64 0 8 = 8" "add64 2 2 = 4" "add64 2 8 = 10"
  by code_simp+

lemma CDCChunker_one_byte:
  "CDCChunker_blocks cdc_248 [0x41] = Some (Inr [[0x41]])"
proof -
  have scan: "CDCChunker_scan cdc_248 [0x41] 0 2 = Some (Inr 2)"
    by (subst CDCChunker_scan.simps) (simp add: cdc_248_sizes add64_small)
  have cut: "CDCChunker_chunkEnd cdc_248 [0x41] 0 = Some (Inr 1)"
    by (simp add: CDCChunker_chunkEnd_def cdc_248_sizes add64_small scan)
  have last: "CDCChunker_loop cdc_248 [0x41] 1 [[0x41]] = Some (Inr [[0x41]])"
    by (subst CDCChunker_loop.simps) simp
  have "CDCChunker_loop cdc_248 [0x41] 0 [] = Some (Inr [[0x41]])"
    by (subst CDCChunker_loop.simps) (simp add: cut slice_def last)
  then show ?thesis by (simp add: CDCChunker_blocks_def)
qed

lemma CDCChunker_three_bytes:
  "CDCChunker_blocks cdc_248 [1, 2, 3] = Some (Inr [[1, 2], [3]])"
proof -
  have bd: "isChunkBoundary cdc_248 [1, 2, 3] 2 = Inr True"
    unfolding cdc_248_def by code_simp
  have scan0: "CDCChunker_scan cdc_248 [1, 2, 3] 0 2 = Some (Inr 2)"
    by (subst CDCChunker_scan.simps) (simp add: cdc_248_sizes add64_small bd)
  have cut0: "CDCChunker_chunkEnd cdc_248 [1, 2, 3] 0 = Some (Inr 2)"
    by (simp add: CDCChunker_chunkEnd_def cdc_248_sizes add64_small scan0)
  have scan2: "CDCChunker_scan cdc_248 [1, 2, 3] 2 4 = Some (Inr 4)"
    by (subst CDCChunker_scan.simps) (simp add: cdc_248_sizes add64_small)
  have cut2: "CDCChunker_chunkEnd cdc_248 [1, 2, 3] 2 = Some (Inr 3)"
    by (simp add: CDCChunker_chunkEnd_def cdc_248_sizes add64_small scan2)
  have l3: "CDCChunker_loop cdc_248 [1, 2, 3] 3 [[1, 2], [3]] = Some (Inr [[1, 2], [3]])"
    by (subst CDCChunker_loop.simps) simp
  have l2: "CDCChunker_loop cdc_248 [1, 2, 3] 2 [[1, 2]] = Some (Inr [[1, 2], [3]])"
    by (subst CDCChunker_loop.simps) (simp add: cut2 slice_def l3)
  have "CDCChunker_loop cdc_248 [1, 2, 3] 0 [] = Some (Inr [[1, 2], [3]])"
    by (subst CDCChunker_loop.simps) (simp add: cut0 slice_def l2)
  then show ?thesis by (simp add: CDCChunker_blocks_def)
qed


subsection \<open>The lengths of the blocks\<close>

text \<open>
  Claim C8: every block that \<^verbatim>\<open>CDCChunker.Chunk\<close> emits has its length in \<open>[min, max]\<close>.
  The last block is what is left of the data, and it can be shorter than \<open>min\<close>: the
  chunker with the sizes 2, 4, 8 cuts one byte into one block of one byte.
\<close>

theorem CDCChunker_short_last_block:
  "CDCChunker_blocks cdc_248 [0x41] = Some (Inr [[0x41]])
   \<and> int (length [0x41 :: byte]) < minSize cdc_248"
  using CDCChunker_one_byte by (simp add: cdc_248_sizes)


text \<open>
  Claim C8 as amended: for a chunker with \<open>0 < min < avg < max\<close>, every block that
  \<^verbatim>\<open>CDCChunker.Chunk\<close> emits is non-empty and at most \<open>max\<close> bytes long, and every block
  but the last one is at least \<open>min\<close> bytes long; and the blocks are emitted, that is, the
  run returns, when \<open>len + max\<close> is below \<open>2 ^ 63\<close>. The sizes and the length of the data
  are 64-bit integers.
\<close>

theorem CDCChunker_block_lengths:
  assumes "0 < minSize c" "minSize c < avgSize c" "avgSize c < maxSize c"
    and "maxSize c < 2 ^ 63" "int (length data) < 2 ^ 63"
  shows "(int (length data) + maxSize c < 2 ^ 63 \<longrightarrow>
           (\<exists>blocks. CDCChunker_blocks c data = Some (Inr blocks)))
       \<and> (\<forall>blocks. CDCChunker_blocks c data = Some (Inr blocks) \<longrightarrow>
             (\<forall>b \<in> set blocks. 0 < length b \<and> int (length b) \<le> maxSize c)
             \<and> (\<forall>b \<in> set (butlast blocks). minSize c \<le> int (length b)))"
proof -
  have v: "minSize c < maxSize c" "avgSize c \<noteq> 0"
    using assms(1-3) by auto
  have returns: "\<exists>blocks. CDCChunker_blocks c data = Some (Inr blocks)"
    if "int (length data) + maxSize c < 2 ^ 63"
  proof (cases "length data = 0")
    case True
    then show ?thesis by (simp add: CDCChunker_blocks_def)
  next
    case False
    from CDCChunker_loop_returns[OF assms(1) v that, of 0 "[]"] obtain blocks where
      "CDCChunker_loop c data 0 [] = Some (Inr blocks)" by auto
    with False show ?thesis by (simp add: CDCChunker_blocks_def)
  qed
  have lengths: "(\<forall>b \<in> set blocks. 0 < length b \<and> int (length b) \<le> maxSize c)
             \<and> (\<forall>b \<in> set (butlast blocks). minSize c \<le> int (length b))"
    if run: "CDCChunker_blocks c data = Some (Inr blocks)" for blocks
  proof (cases "length data = 0")
    case True
    with run show ?thesis by (simp add: CDCChunker_blocks_def)
  next
    case False
    with run have "CDCChunker_loop c data 0 [] = Some (Inr blocks)"
      by (simp add: CDCChunker_blocks_def)
    from CDCChunker_loop_blocks[OF assms(1) v assms(4,5) _ this]
    show ?thesis by auto
  qed
  from returns lengths show ?thesis by blast
qed

theorem CDCChunker_block_lengths_witness:
  "CDCChunker_blocks cdc_248 [1, 2, 3] = Some (Inr [[1, 2], [3]])
   \<and> list_all (\<lambda>b. 0 < length b \<and> int (length b) \<le> maxSize cdc_248) [[1, 2], [3 :: byte]]
   \<and> list_all (\<lambda>b. minSize cdc_248 \<le> int (length b)) (butlast [[1, 2], [3 :: byte]])"
proof -
  have k: "0 < minSize cdc_248" "minSize cdc_248 < avgSize cdc_248"
    "avgSize cdc_248 < maxSize cdc_248" "maxSize cdc_248 < 2 ^ 63"
    by (simp_all add: cdc_248_sizes)
  have l: "int (length [1, 2, 3 :: byte]) < 2 ^ 63" by simp
  from CDCChunker_block_lengths[OF k l] CDCChunker_three_bytes
  have "(\<forall>b \<in> set [[1, 2], [3 :: byte]]. 0 < length b \<and> int (length b) \<le> maxSize cdc_248)
      \<and> (\<forall>b \<in> set (butlast [[1, 2], [3 :: byte]]). minSize cdc_248 \<le> int (length b))"
    by blast
  with CDCChunker_three_bytes show ?thesis by (simp add: list_all_iff)
qed

subsection \<open>Construction and termination\<close>

text \<open>
  \<^verbatim>\<open>NewCDCChunker\<close> tests the order of the three sizes and puts no upper bound on them.
  With the sizes 1, 2 and \<open>2 ^ 63 - 1\<close>, which it keeps, the sum \<^verbatim>\<open>pos + maxSize\<close> wraps in
  the second round on two bytes: the inner loop is not entered, \<^verbatim>\<open>chunkEnd\<close> is clamped to
  the negative sum, and the slice expression \<^verbatim>\<open>data[pos:chunkEnd]\<close> panics.
\<close>

lemma cdc_huge_sizes:
  "minSize cdc_huge = 1" "avgSize cdc_huge = 2" "maxSize cdc_huge = 9223372036854775807"
  by (simp_all add: cdc_huge_def NewCDCChunker_def)

lemma add64_huge:
  "add64 0 1 = 1" "add64 1 1 = 2" "add64 0 9223372036854775807 = 9223372036854775807"
  "add64 1 9223372036854775807 = - 9223372036854775808"
  by code_simp+

lemma CDCChunker_overflow_first_round:
  "CDCChunker_chunkEnd cdc_huge [0x00, 0x00] 0 = Some (Inr 1)"
proof -
  have bd: "isChunkBoundary cdc_huge [0x00, 0x00] 1 = Inr True"
    unfolding cdc_huge_def by code_simp
  have scan0: "CDCChunker_scan cdc_huge [0x00, 0x00] 0 1 = Some (Inr 1)"
    by (subst CDCChunker_scan.simps) (simp add: cdc_huge_sizes add64_huge bd)
  show ?thesis
    by (simp add: CDCChunker_chunkEnd_def cdc_huge_sizes add64_huge scan0)
qed

lemma CDCChunker_overflow_second_round:
  "CDCChunker_chunkEnd cdc_huge [0x00, 0x00] 1 = Some (Inr (- 9223372036854775808))"
proof -
  have scan1: "CDCChunker_scan cdc_huge [0x00, 0x00] 1 2 = Some (Inr 2)"
    by (subst CDCChunker_scan.simps) (simp add: cdc_huge_sizes add64_huge)
  show ?thesis
    by (simp add: CDCChunker_chunkEnd_def cdc_huge_sizes add64_huge scan1)
qed

lemma CDCChunker_overflow_blocks:
  "CDCChunker_blocks cdc_huge [0x00, 0x00] = Some (Inl Panic)"
proof -
  have l1: "CDCChunker_loop cdc_huge [0x00, 0x00] 1 [[0x00]] = Some (Inl Panic)"
    by (subst CDCChunker_loop.simps)
      (simp add: CDCChunker_overflow_second_round slice_def)
  have "CDCChunker_loop cdc_huge [0x00, 0x00] 0 [] = Some (Inl Panic)"
    by (subst CDCChunker_loop.simps)
      (simp add: CDCChunker_overflow_first_round slice_def l1)
  then show ?thesis by (simp add: CDCChunker_blocks_def)
qed

text \<open>
  Within the range of Go's \<^verbatim>\<open>int\<close> the two loops of \<^verbatim>\<open>Chunk\<close> never run forever with sizes
  \<open>0 < min < avg < max\<close>: the run returns the digests or panics.
\<close>

lemma CDCChunker_Chunk_ends:
  assumes "0 < minSize c" "minSize c < avgSize c" "avgSize c < maxSize c"
    and "maxSize c < 2 ^ 63" "int (length data) < 2 ^ 63"
  shows "\<exists>r. CDCChunker_Chunk H c data = Some r"
proof (cases "length data = 0")
  case True
  then show ?thesis by (simp add: CDCChunker_Chunk_def CDCChunker_blocks_def)
next
  case False
  have v: "minSize c < maxSize c" "avgSize c \<noteq> 0"
    using assms(1-3) by auto
  from CDCChunker_loop_total[OF assms(1) v assms(4,5), of 0 "[]"] obtain r where
    "CDCChunker_loop c data 0 [] = Some r" by auto
  with False show ?thesis by (simp add: CDCChunker_Chunk_def CDCChunker_blocks_def)
qed


text \<open>
  Claim C10: every chunker that \<^verbatim>\<open>NewCDCChunker\<close> returns has \<open>0 < min < avg < max\<close>, and
  consequently \<^verbatim>\<open>Chunk\<close> moves its position strictly forward in every round and
  terminates on every input. \<^verbatim>\<open>NewCDCChunker(1, 2, 1<<63 - 1)\<close> keeps its three sizes,
  which are in that order, and on the two bytes \<open>[0, 0]\<close> the second round of \<^verbatim>\<open>Chunk\<close>,
  at the position 1, computes the \<^verbatim>\<open>chunkEnd\<close> \<open>- 2 ^ 63\<close>, which is not beyond the
  position, and the call panics instead of returning.
\<close>

theorem NewCDCChunker_Chunk_overflow_panic:
  "minSize (NewCDCChunker 1 2 9223372036854775807) = 1
   \<and> avgSize (NewCDCChunker 1 2 9223372036854775807) = 2
   \<and> maxSize (NewCDCChunker 1 2 9223372036854775807) = 9223372036854775807
   \<and> CDCChunker_chunkEnd (NewCDCChunker 1 2 9223372036854775807) [0x00, 0x00] 1
       = Some (Inr (- 9223372036854775808))
   \<and> CDCChunker_Chunk hex_encode (NewCDCChunker 1 2 9223372036854775807) [0x00, 0x00]
       = Some (Inl Panic)"
proof -
  have "CDCChunker_Chunk hex_encode cdc_huge [0x00, 0x00] = Some (Inl Panic)"
    by (simp add: CDCChunker_Chunk_def CDCChunker_overflow_blocks)
  with cdc_huge_sizes CDCChunker_overflow_second_round show ?thesis
    unfolding cdc_huge_def by blast
qed


text \<open>
  Claim C10 as amended: every chunker that \<^verbatim>\<open>NewCDCChunker\<close> returns has
  \<open>0 < min < avg < max\<close>. Its sizes are the given ones, each non-positive one replaced by
  its default, when these are in that order, and the three defaults 2048, 8192 and
  65536 otherwise. On every input for which \<open>len + max\<close> is below \<open>2 ^ 63\<close>, \<^verbatim>\<open>Chunk\<close> with
  such a chunker returns the digests, and every round of it moves the position
  strictly forward, to a position no greater than the length.
\<close>

theorem NewCDCChunker_Chunk_advances:
  "0 < minSize (NewCDCChunker a b c)
   \<and> minSize (NewCDCChunker a b c) < avgSize (NewCDCChunker a b c)
   \<and> avgSize (NewCDCChunker a b c) < maxSize (NewCDCChunker a b c)
   \<and> (if (if a \<le> 0 then 2048 else a) < (if b \<le> 0 then 8192 else b)
          \<and> (if b \<le> 0 then 8192 else b) < (if c \<le> 0 then 65536 else c)
       then minSize (NewCDCChunker a b c) = (if a \<le> 0 then 2048 else a)
          \<and> avgSize (NewCDCChunker a b c) = (if b \<le> 0 then 8192 else b)
          \<and> maxSize (NewCDCChunker a b c) = (if c \<le> 0 then 65536 else c)
       else minSize (NewCDCChunker a b c) = 2048
          \<and> avgSize (NewCDCChunker a b c) = 8192
          \<and> maxSize (NewCDCChunker a b c) = 65536)
   \<and> (int (length data) + maxSize (NewCDCChunker a b c) < 2 ^ 63 \<longrightarrow>
        (\<exists>hashes. CDCChunker_Chunk H (NewCDCChunker a b c) data = Some (Inr hashes))
        \<and> (\<forall>pos. 0 \<le> pos \<and> pos < int (length data) \<longrightarrow>
              (\<exists>chunkEnd. CDCChunker_chunkEnd (NewCDCChunker a b c) data pos = Some (Inr chunkEnd)
                 \<and> pos < chunkEnd \<and> chunkEnd \<le> int (length data))))"
proof -
  define k where "k = NewCDCChunker a b c"
  have v: "0 < minSize k" "minSize k < avgSize k" "avgSize k < maxSize k"
    using NewCDCChunker_sizes[of a b c] by (simp_all add: k_def)
  then have v': "minSize k < maxSize k" "avgSize k \<noteq> 0" by auto
  have d: "if (if a \<le> 0 then 2048 else a) < (if b \<le> 0 then 8192 else b)
          \<and> (if b \<le> 0 then 8192 else b) < (if c \<le> 0 then 65536 else c)
       then minSize k = (if a \<le> 0 then 2048 else a)
          \<and> avgSize k = (if b \<le> 0 then 8192 else b)
          \<and> maxSize k = (if c \<le> 0 then 65536 else c)
       else minSize k = 2048 \<and> avgSize k = 8192 \<and> maxSize k = 65536"
    by (auto simp add: k_def NewCDCChunker_def Let_def)
  have s: "\<exists>chunkEnd. CDCChunker_chunkEnd k data pos = Some (Inr chunkEnd)
                 \<and> pos < chunkEnd \<and> chunkEnd \<le> int (length data)"
    if nowrap: "int (length data) + maxSize k < 2 ^ 63"
      and pos: "0 \<le> pos" "pos < int (length data)" for pos
  proof -
    have r1: "maxSize k < 2 ^ 63" and r2: "int (length data) < 2 ^ 63"
      using nowrap v by auto
    have "pos + maxSize k < 2 ^ 63" using nowrap pos by auto
    with CDCChunker_chunkEnd_total[OF v(1) v' r1 r2 pos] show ?thesis by auto
  qed
  have r: "\<exists>hashes. CDCChunker_Chunk H k data = Some (Inr hashes)"
    if "int (length data) + maxSize k < 2 ^ 63"
  proof (cases "length data = 0")
    case True
    then show ?thesis by (simp add: CDCChunker_Chunk_def CDCChunker_blocks_def)
  next
    case False
    from CDCChunker_loop_returns[OF v(1) v' that, of 0 "[]"] obtain blocks where
      "CDCChunker_loop k data 0 [] = Some (Inr blocks)" by auto
    with False show ?thesis by (simp add: CDCChunker_Chunk_def CDCChunker_blocks_def)
  qed
  from v d s r show ?thesis unfolding k_def by blast
qed

theorem NewCDCChunker_Chunk_advances_witness:
  "minSize (NewCDCChunker 2 4 8) = 2 \<and> avgSize (NewCDCChunker 2 4 8) = 4
   \<and> maxSize (NewCDCChunker 2 4 8) = 8
   \<and> (\<exists>hashes. CDCChunker_Chunk hex_encode (NewCDCChunker 2 4 8) [1, 2, 3] = Some (Inr hashes))
   \<and> (\<exists>chunkEnd. CDCChunker_chunkEnd (NewCDCChunker 2 4 8) [1, 2, 3] 2 = Some (Inr chunkEnd)
         \<and> 2 < chunkEnd \<and> chunkEnd \<le> 3)"
proof -
  note t = NewCDCChunker_Chunk_advances[of 2 4 8 "[1, 2, 3]" hex_encode]
  from t have k: "minSize (NewCDCChunker 2 4 8) = 2 \<and> avgSize (NewCDCChunker 2 4 8) = 4
      \<and> maxSize (NewCDCChunker 2 4 8) = 8"
    by simp
  then have r: "int (length [1, 2, 3 :: byte]) + maxSize (NewCDCChunker 2 4 8) < 2 ^ 63"
    by simp
  have p: "(0::int) \<le> 2 \<and> 2 < int (length [1, 2, 3 :: byte])" by simp
  from t r p
  have "\<exists>hashes. CDCChunker_Chunk hex_encode (NewCDCChunker 2 4 8) [1, 2, 3] = Some (Inr hashes)"
    and "\<exists>chunkEnd. CDCChunker_chunkEnd (NewCDCChunker 2 4 8) [1, 2, 3] 2 = Some (Inr chunkEnd)
           \<and> 2 < chunkEnd \<and> chunkEnd \<le> int (length [1, 2, 3 :: byte])"
    by blast+
  with k show ?thesis by simp
qed

end
